theory Spec2Isabelle
  imports Main
begin

section \<open>JSON values\<close>

text \<open>
  The search engine answers in JSON. A hit reaches the Go proxy as an \<open>interface{}\<close>
  holding a decoded JSON value, and the JavaScript handler as a parsed JSON object.
  Objects are association lists from keys to values (keys distinct); the payload of a
  number is never inspected by the proxy beyond being zero or not, and is kept as an
  integer.
\<close>

datatype json =
    JNull
  | JBool bool
  | JNumber int
  | JString string
  | JArray "json list"
  | JObject "(string \<times> json) list"

section \<open>The Go query proxy (backend/main.go)\<close>

subsection \<open>Data\<close>

text \<open>
  \<open>Score\<close> is a \<open>float64\<close> in the source; the only values ever stored are
  \<open>float64(len(hits) - i)\<close>, integers far below \<open>2^53\<close>, which the conversion
  represents exactly, so the field is modelled by that integer.
\<close>

record SearchResult =
  ID :: string
  Title :: string
  Content :: string
  URL :: string
  Score :: int

text \<open>A nil slice and an empty slice are both the empty list; the zero value of a
  string field is the empty string, of \<open>Total\<close> zero.\<close>

record SearchResponse =
  Success :: bool
  Results :: "SearchResult list"
  Error :: string
  Query :: string
  Total :: int

record Config =
  MeilisearchURL :: string
  MeilisearchKey :: string
  Port :: string
  IndexName :: string

subsection \<open>Configuration\<close>

text \<open>The process environment maps names to values; \<open>os.Getenv\<close> returns the empty
  string for a name that is not set.\<close>

type_synonym environ = "string \<rightharpoonup> string"

definition os_Getenv :: "environ \<Rightarrow> string \<Rightarrow> string" where
  "os_Getenv env key = (case env key of None \<Rightarrow> [] | Some v \<Rightarrow> v)"

definition getEnv :: "environ \<Rightarrow> string \<Rightarrow> string \<Rightarrow> string" where
  "getEnv env key defaultValue =
     (let v = os_Getenv env key in if v \<noteq> [] then v else defaultValue)"

definition loadConfig :: "environ \<Rightarrow> Config" where
  "loadConfig env =
     \<lparr> MeilisearchURL = getEnv env ''MEILISEARCH_URL'' ''http://meilisearch:7700'',
       MeilisearchKey = getEnv env ''MEILISEARCH_KEY'' ''masterKey123'',
       Port = getEnv env ''PORT'' ''8080'',
       IndexName = getEnv env ''INDEX_NAME'' ''documents'' \<rparr>"

subsection \<open>Query parameters and \<open>strconv.Atoi\<close>\<close>

text \<open>
  The parsed query string (\<open>url.Values\<close>) maps a key to the list of its values.
  gin's \<open>Query\<close> returns the first value of a key, or the empty string when the key
  is absent; \<open>DefaultQuery\<close> returns the first value, or the given default when the
  key is absent.
\<close>

type_synonym url_Values = "string \<rightharpoonup> string list"

definition GetQuery :: "url_Values \<Rightarrow> string \<Rightarrow> string \<times> bool" where
  "GetQuery vs key = (case vs key of Some (v # _) \<Rightarrow> (v, True) | _ \<Rightarrow> ([], False))"

definition gin_Query :: "url_Values \<Rightarrow> string \<Rightarrow> string" where
  "gin_Query vs key = fst (GetQuery vs key)"

definition DefaultQuery :: "url_Values \<Rightarrow> string \<Rightarrow> string \<Rightarrow> string" where
  "DefaultQuery vs key defaultValue =
     (case GetQuery vs key of (v, ok) \<Rightarrow> if ok then v else defaultValue)"

text \<open>
  \<open>strconv.Atoi\<close> on a 64-bit build. Its fast path for short strings computes what
  \<open>ParseInt(s, 10, 0)\<close> computes, so it is modelled by the latter: an optional sign,
  then \<open>ParseUint\<close> on the rest, which scans the digits from the left (a byte that is
  not a decimal digit is a syntax error, a value beyond 64 bits a range error,
  whichever comes first), then the check against the range of \<open>int\<close>. The proxy only
  looks at whether an error came back.
\<close>

datatype NumError = ErrSyntax | ErrRange

definition is_digit :: "char \<Rightarrow> bool" where
  "is_digit ch = (48 \<le> (of_char ch :: nat) \<and> (of_char ch :: nat) \<le> 57)"

text \<open>The loop of \<open>ParseUint\<close> for base 10: \<open>18446744073709551615\<close> is the largest
  \<open>uint64\<close>, and \<open>1844674407370955162\<close> the cutoff from which \<open>n * 10\<close> overflows.\<close>

fun ParseUint_loop :: "nat \<Rightarrow> string \<Rightarrow> NumError + nat" where
  "ParseUint_loop n [] = Inr n"
| "ParseUint_loop n (c # cs) =
     (if \<not> is_digit c then Inl ErrSyntax
      else if 1844674407370955162 \<le> n then Inl ErrRange
      else let n1 = n * 10 + (of_char c - 48)
           in if 18446744073709551615 < n1 then Inl ErrRange else ParseUint_loop n1 cs)"

definition ParseUint :: "string \<Rightarrow> NumError + nat" where
  "ParseUint s = (if s = [] then Inl ErrSyntax else ParseUint_loop 0 s)"

definition ParseInt :: "string \<Rightarrow> NumError + int" where
  "ParseInt s0 =
     (case s0 of
        [] \<Rightarrow> Inl ErrSyntax
      | c # r \<Rightarrow>
          let neg = (c = CHR ''-'');
              s = (if c = CHR ''+'' \<or> c = CHR ''-'' then r else s0)
          in (case ParseUint s of
                Inl ErrSyntax \<Rightarrow> Inl ErrSyntax
              | Inl ErrRange \<Rightarrow> Inl ErrRange
              | Inr un \<Rightarrow>
                  if \<not> neg \<and> 9223372036854775808 \<le> un then Inl ErrRange
                  else if neg \<and> 9223372036854775808 < un then Inl ErrRange
                  else Inr (if neg then - int un else int un)))"

definition Atoi :: "string \<Rightarrow> NumError + int" where
  "Atoi s = ParseInt s"

subsection \<open>The search engine and \<open>performSearch\<close>\<close>

record SearchRequest =
  Limit :: int
  AttributesToHighlight :: "string list"
  HighlightPreTag :: string
  HighlightPostTag :: string
  AttributesToCrop :: "string list"
  CropLength :: int
  ShowMatchesPosition :: bool
  AttributesToRetrieve :: "string list"

text \<open>
  The Meilisearch client is outside the repository: \<open>index.Search\<close> is a parameter,
  a function of the index name, the query and the request that returns the error
  (its message) or the hits of the response.
\<close>

type_synonym search_call = "string \<times> string \<times> SearchRequest"

type_synonym meili_client = "string \<Rightarrow> string \<Rightarrow> SearchRequest \<Rightarrow> string + json list"

text \<open>
  \<open>json.Marshal\<close> of a hit and \<open>json.Unmarshal\<close> of the bytes into a
  \<open>map[string]interface{}\<close>. A value decoded from JSON always encodes, and the byte
  string is represented by the value it denotes. Decoding into a map succeeds for an
  object, leaves the map nil for \<open>null\<close> (a nil map reads as empty), and is a type
  error for every other value.
\<close>

datatype json_error = UnsupportedValueError | UnmarshalTypeError

datatype json_bytes = Encoded json

definition json_Marshal :: "json \<Rightarrow> json_error + json_bytes" where
  "json_Marshal v = Inr (Encoded v)"

fun json_Unmarshal :: "json_bytes \<Rightarrow> json_error + (string \<rightharpoonup> json)" where
  "json_Unmarshal (Encoded (JObject kvs)) = Inr (map_of kvs)"
| "json_Unmarshal (Encoded JNull) = Inr Map.empty"
| "json_Unmarshal (Encoded _) = Inl UnmarshalTypeError"

definition getString :: "(string \<rightharpoonup> json) \<Rightarrow> string \<Rightarrow> string" where
  "getString m key =
     (case m key of
        Some val \<Rightarrow> (case val of JString str \<Rightarrow> str | _ \<Rightarrow> [])
      | None \<Rightarrow> [])"

text \<open>The loop over \<open>searchRes.Hits\<close>: \<open>n\<close> is \<open>len(searchRes.Hits)\<close>, \<open>i\<close> the
  index of the next hit, \<open>results\<close> the slice built so far. Both error branches
  \<open>continue\<close>.\<close>

fun performSearch_loop :: "nat \<Rightarrow> nat \<Rightarrow> json list \<Rightarrow> SearchResult list \<Rightarrow> SearchResult list" where
  "performSearch_loop n i [] results = results"
| "performSearch_loop n i (hit # hits) results =
     (case json_Marshal hit of
        Inl err \<Rightarrow> performSearch_loop n (Suc i) hits results
      | Inr hitBytes \<Rightarrow>
          (case json_Unmarshal hitBytes of
             Inl err \<Rightarrow> performSearch_loop n (Suc i) hits results
           | Inr doc \<Rightarrow>
               performSearch_loop n (Suc i) hits
                 (results @
                  [\<lparr> ID = getString doc ''id'',
                      Title = getString doc ''title'',
                      Content = getString doc ''content'',
                      URL = getString doc ''url'',
                      Score = int n - int i \<rparr>])))"

definition search_request :: "int \<Rightarrow> SearchRequest" where
  "search_request limit =
     \<lparr> Limit = limit,
       AttributesToHighlight = [''title'', ''content''],
       HighlightPreTag = ''<mark>'',
       HighlightPostTag = ''</mark>'',
       AttributesToCrop = [''content''],
       CropLength = 200,
       ShowMatchesPosition = True,
       AttributesToRetrieve = [''*''] \<rparr>"

text \<open>\<open>performSearch\<close> returns its result together with the calls it made to the
  search engine (always exactly one).\<close>

definition performSearch ::
  "meili_client \<Rightarrow> string \<Rightarrow> string \<Rightarrow> int \<Rightarrow> (string + SearchResult list) \<times> search_call list" where
  "performSearch client indexName query limit =
     (let req = search_request limit in
      (case client indexName query req of
         Inl err \<Rightarrow> Inl err
       | Inr hits \<Rightarrow> Inr (performSearch_loop (length hits) 0 hits []),
       [(indexName, query, req)]))"

subsection \<open>The \<open>/search\<close> endpoint\<close>

record reply =
  status :: nat
  body :: SearchResponse

definition empty_response :: SearchResponse where
  "empty_response = \<lparr> Success = False, Results = [], Error = [], Query = [], Total = 0 \<rparr>"

text \<open>The block "Parse limit parameter" of the handler.\<close>

definition parse_limit :: "url_Values \<Rightarrow> int" where
  "parse_limit vs =
     (let limitStr = DefaultQuery vs ''limit'' ''20''
      in case Atoi limitStr of Inl err \<Rightarrow> 20 | Inr limit \<Rightarrow> limit)"

text \<open>The handler registered with \<open>router.GET("/search", ...)\<close>: the reply written
  with \<open>c.JSON\<close>, and the calls made to the search engine while serving the
  request.\<close>

definition search_endpoint :: "meili_client \<Rightarrow> Config \<Rightarrow> url_Values \<Rightarrow> reply \<times> search_call list" where
  "search_endpoint client config vs =
     (let query = gin_Query vs ''q'' in
      if query = [] then
        (\<lparr> status = 400,
            body = empty_response \<lparr> Success := False, Error := ''Query parameter 'q' is required'' \<rparr> \<rparr>,
         [])
      else
        let limit = parse_limit vs
        in (case performSearch client (IndexName config) query limit of
              (Inl err, calls) \<Rightarrow>
                (\<lparr> status = 500,
                    body = empty_response \<lparr> Success := False, Error := ''Search failed: '' @ err,
                                             Query := query \<rparr> \<rparr>,
                 calls)
            | (Inr results, calls) \<Rightarrow>
                (\<lparr> status = 200,
                    body = empty_response \<lparr> Success := True, Results := results, Query := query,
                                             Total := int (length results) \<rparr> \<rparr>,
                 calls)))"

subsection \<open>The JSON body written by \<open>c.JSON\<close>\<close>




section \<open>The serverless search handler (api/search.js)\<close>

subsection \<open>JavaScript values\<close>

text \<open>
  A query parameter of the request is \<open>undefined\<close>, a string, or (when the key is
  repeated) an array of strings. Strings are sequences of code units; a \<open>char\<close>
  stands for a code unit below 256.
\<close>

datatype js_query = QUndefined | QString string | QArray "string list"

record js_request =
  req_method :: string
  query_q :: js_query
  query_limit :: js_query

text \<open>A thrown exception is an \<open>Error\<close> object; only its message is read.\<close>

datatype js_error = JsError string

text \<open>\<open>res.status(n).json(v)\<close> sends the JSON value \<open>v\<close>; \<open>res.status(n).end()\<close>
  sends no body.\<close>

record js_response =
  res_status :: nat
  res_json :: "json option"

text \<open>\<open>String.prototype.trim\<close> strips white space and line terminators from both
  ends; among the code units below 256 these are tab, line feed, vertical tab, form
  feed, carriage return, space and no-break space.\<close>

definition js_is_space :: "char \<Rightarrow> bool" where
  "js_is_space ch = ((of_char ch :: nat) \<in> {9, 10, 11, 12, 13, 32, 160})"

definition js_trim :: "string \<Rightarrow> string" where
  "js_trim s = rev (dropWhile js_is_space (rev (dropWhile js_is_space s)))"

text \<open>Truthiness of a JSON value, and \<open>a || b\<close> where \<open>a\<close> may be \<open>undefined\<close>
  (\<open>None\<close>).\<close>

fun js_truthy :: "json \<Rightarrow> bool" where
  "js_truthy JNull = False"
| "js_truthy (JBool b) = b"
| "js_truthy (JNumber n) = (n \<noteq> 0)"
| "js_truthy (JString s) = (s \<noteq> [])"
| "js_truthy (JArray xs) = True"
| "js_truthy (JObject kvs) = True"

definition js_or :: "json option \<Rightarrow> json \<Rightarrow> json" where
  "js_or a b = (case a of None \<Rightarrow> b | Some v \<Rightarrow> if js_truthy v then v else b)"

text \<open>The decimal digits of an array index, as a template literal prints it.\<close>

fun js_index_string :: "nat \<Rightarrow> string" where
  "js_index_string n =
     (if n < 10 then [char_of (48 + n)]
      else js_index_string (n div 10) @ [char_of (48 + n mod 10)])"

declare js_index_string.simps [simp del]

subsection \<open>The search client\<close>

text \<open>
  The options object passed to \<open>index.search\<close>. \<open>parseInt\<close> yields a floating-point
  number (possibly \<open>NaN\<close>); it is a parameter of the model, applied to the value of
  \<open>limit\<close>, and its result type is left open.
\<close>

record 'n js_search_params =
  limit :: 'n
  attributesToHighlight :: "string list"
  highlightPreTag :: string
  highlightPostTag :: string
  attributesToCrop :: "string list"
  cropLength :: int
  showMatchesPosition :: bool
  attributesToRetrieve :: "string list"

text \<open>The response of the client: each hit is a JSON object (the client types it as a
  record of fields), given by its key-value pairs.\<close>

record js_search_results =
  hits :: "(string \<times> json) list list"
  processingTimeMs :: "json option"

type_synonym 'n js_search_call = "string \<times> string \<times> 'n js_search_params"

type_synonym 'n js_client = "string \<Rightarrow> string \<Rightarrow> 'n js_search_params \<Rightarrow> js_error + js_search_results"

subsection \<open>The handler\<close>

definition format_result :: "nat \<Rightarrow> nat \<times> (string \<times> json) list \<Rightarrow> json" where
  "format_result n = (\<lambda>(index, hit).
     JObject
       [(''id'', js_or (map_of hit ''id'') (JString (''result-'' @ js_index_string index))),
        (''title'', js_or (map_of hit ''title'') (JString ''Untitled'')),
        (''content'', js_or (map_of hit ''content'') (JString [])),
        (''url'', js_or (map_of hit ''url'') (JString ''#'')),
        (''score'', JNumber (int n - int index))])"

definition js_search_options :: "'n \<Rightarrow> 'n js_search_params" where
  "js_search_options l =
     \<lparr> limit = l,
       attributesToHighlight = [''title'', ''content''],
       highlightPreTag = ''<mark>'',
       highlightPostTag = ''</mark>'',
       attributesToCrop = [''content''],
       cropLength = 200,
       showMatchesPosition = True,
       attributesToRetrieve = [''*''] \<rparr>"

text \<open>The destructuring \<open>const { q: query, limit = 20 } = req.query\<close>: the value
  of \<open>limit\<close>, the number 20 when the parameter is \<open>undefined\<close>.\<close>

definition limit_or_default :: "js_query \<Rightarrow> json" where
  "limit_or_default l =
     (case l of
        QUndefined \<Rightarrow> JNumber 20
      | QString s \<Rightarrow> JString s
      | QArray xs \<Rightarrow> JArray (map JString xs))"

text \<open>The body of the \<open>try\<close> block: \<open>Inl\<close> is a thrown exception. The second
  component lists the calls made to the search client.\<close>

definition handler_try ::
  "(json \<Rightarrow> 'n) \<Rightarrow> 'n js_client \<Rightarrow> js_request \<Rightarrow> (js_error + js_response) \<times> 'n js_search_call list" where
  "handler_try parseInt client req =
     (let lim = limit_or_default (query_limit req);
          bad_request =
            \<lparr> res_status = 400,
              res_json = Some (JObject [(''success'', JBool False),
                                       (''error'', JString ''Query parameter \"q\" is required'')]) \<rparr>
      in case query_q req of
           QUndefined \<Rightarrow> (Inr bad_request, [])
         | QArray xs \<Rightarrow> (Inl (JsError ''query.trim is not a function''), [])
         | QString query \<Rightarrow>
             if query = [] \<or> js_trim query = [] then (Inr bad_request, [])
             else
               let opts = js_search_options (parseInt lim);
                   calls = [(''documents'', query, opts)]
               in (case client ''documents'' query opts of
                     Inl err \<Rightarrow> (Inl err, calls)
                   | Inr searchResults \<Rightarrow>
                       let hs = hits searchResults;
                           results = map (format_result (length hs)) (enumerate 0 hs)
                       in (Inr \<lparr> res_status = 200,
                                 res_json = Some (JObject
                                   ([(''success'', JBool True),
                                     (''results'', JArray results),
                                     (''query'', JString query),
                                     (''total'', JNumber (int (length results)))] @
                                    (case processingTimeMs searchResults of
                                       None \<Rightarrow> []
                                     | Some t \<Rightarrow> [(''processingTimeMs'', t)]))) \<rparr>,
                           calls)))"

definition handler ::
  "(json \<Rightarrow> 'n) \<Rightarrow> 'n js_client \<Rightarrow> js_request \<Rightarrow> js_response \<times> 'n js_search_call list" where
  "handler parseInt client req =
     (if req_method req = ''OPTIONS'' then (\<lparr> res_status = 200, res_json = None \<rparr>, [])
      else if req_method req \<noteq> ''GET'' then
        (\<lparr> res_status = 405,
            res_json = Some (JObject [(''success'', JBool False),
                                     (''error'', JString ''Method not allowed'')]) \<rparr>,
         [])
      else
        (case handler_try parseInt client req of
           (Inr response, calls) \<Rightarrow> (response, calls)
         | (Inl (JsError msg), calls) \<Rightarrow>
             (\<lparr> res_status = 500,
                 res_json = Some (JObject [(''success'', JBool False),
                                          (''error'', JString ''Search failed''),
                                          (''message'', JString msg)]) \<rparr>,
              calls)))"

section \<open>The crawl pipeline\<close>

text \<open>
  The crawler script (\<open>crawler/crawler.py\<close>) is not among the sources; only its
  container file and its configuration are. The definitions of this section follow the
  specification's sections 3 and 4. Politeness delays, retries inside the Fetcher and
  the batching inside the Index Sink need real time or the network and are left out;
  URLs are taken as already normalized, as the specification's \<open>FrontierEntry\<close> holds
  them.
\<close>

subsection \<open>URL Frontier and VisitedSet\<close>

text \<open>Modelled from the spec: the \<open>FrontierEntry\<close> of section 3 (crawler.py is
  missing): a normalized URL, a depth and the URL it was discovered from.\<close>

record FrontierEntry =
  url :: string
  depth :: nat
  discoveredFrom :: "string option"

text \<open>Modelled from the spec: the Frontier of pending entries in discovery order,
  together with the \<open>VisitedSet\<close> of normalized URLs already dequeued (section 3;
  crawler.py is missing).\<close>

record Frontier =
  pending :: "FrontierEntry list"
  VisitedSet :: "string set"

definition empty_frontier :: Frontier where
  "empty_frontier = \<lparr> pending = [], VisitedSet = {} \<rparr>"

text \<open>Modelled from the spec: \<open>offer(entry)\<close> of section 4.1 (crawler.py is missing):
  inserts the entry unless its normalized URL is already present in the Frontier or
  the VisitedSet (a no-op, not an error); an entry deeper than the configured maximum
  is dropped silently.\<close>

definition offer :: "nat \<Rightarrow> FrontierEntry \<Rightarrow> Frontier \<Rightarrow> Frontier" where
  "offer maxDepth entry F =
     (if url entry \<in> url ` set (pending F) \<or> url entry \<in> VisitedSet F then F
      else if maxDepth < depth entry then F
      else F \<lparr> pending := pending F @ [entry] \<rparr>)"

text \<open>Modelled from the spec: the breadth-first choice of section 4.1 (crawler.py is
  missing): the pending entry of least depth, the earliest discovered among equals.\<close>

fun bfs_first :: "FrontierEntry \<Rightarrow> FrontierEntry list \<Rightarrow> FrontierEntry" where
  "bfs_first best [] = best"
| "bfs_first best (e # es) = bfs_first (if depth e < depth best then e else best) es"

text \<open>Modelled from the spec: \<open>take()\<close> of section 4.1 (crawler.py is missing):
  removes and returns one entry in breadth-first order and records its URL in the
  VisitedSet; on an empty frontier it signals "drained" (\<open>None\<close>).\<close>

definition take_next :: "Frontier \<Rightarrow> FrontierEntry option \<times> Frontier" where
  "take_next F =
     (case pending F of
        [] \<Rightarrow> (None, F)
      | e # es \<Rightarrow>
          let x = bfs_first e es
          in (Some x, F \<lparr> pending := remove1 x (pending F),
                          VisitedSet := insert (url x) (VisitedSet F) \<rparr>))"

text \<open>Modelled from the spec: a run of the Frontier of section 4.1 (crawler.py is
  missing): any sequence of \<open>offer\<close> and \<open>take\<close> calls, with the entries that \<open>take\<close>
  returned, in order.\<close>

datatype frontier_op = Offer FrontierEntry | Take

fun run_ops :: "nat \<Rightarrow> frontier_op list \<Rightarrow> Frontier \<Rightarrow> FrontierEntry list \<times> Frontier" where
  "run_ops maxDepth [] F = ([], F)"
| "run_ops maxDepth (Offer entry # ops) F = run_ops maxDepth ops (offer maxDepth entry F)"
| "run_ops maxDepth (Take # ops) F =
     (case take_next F of
        (None, F') \<Rightarrow> run_ops maxDepth ops F'
      | (Some entry, F') \<Rightarrow>
          (case run_ops maxDepth ops F' of (taken, F'') \<Rightarrow> (entry # taken, F'')))"

subsection \<open>Deduplicator\<close>

text \<open>Modelled from the spec: the \<open>Document\<close> of section 3 (crawler.py is
  missing).\<close>

record Document =
  doc_id :: string
  doc_title :: string
  doc_content :: string
  doc_url :: string
  contentHash :: string

text \<open>Modelled from the spec: \<open>shouldIndex(document)\<close> of section 4.5 (crawler.py is
  missing). \<open>fingerprint\<close> is the hash of the normalized content text; the registry
  maps a content hash to the time it was last seen. Returns false if the hash is
  already present; otherwise inserts it with the current timestamp and returns
  true.\<close>

definition shouldIndex ::
  "(string \<Rightarrow> 'h) \<Rightarrow> nat \<Rightarrow> Document \<Rightarrow> ('h \<rightharpoonup> nat) \<Rightarrow> bool \<times> ('h \<rightharpoonup> nat)" where
  "shouldIndex fingerprint now document registry =
     (let h = fingerprint (doc_content document)
      in if h \<in> dom registry then (False, registry)
         else (True, registry(h \<mapsto> now)))"

text \<open>Modelled from the spec: the documents of a run, each with the time it is met,
  passed through the Deduplicator of section 4.5 in order (crawler.py is missing): the
  list of answers and the final registry.\<close>

fun shouldIndex_all ::
  "(string \<Rightarrow> 'h) \<Rightarrow> (nat \<times> Document) list \<Rightarrow> ('h \<rightharpoonup> nat) \<Rightarrow> bool list \<times> ('h \<rightharpoonup> nat)" where
  "shouldIndex_all fingerprint [] registry = ([], registry)"
| "shouldIndex_all fingerprint ((now, document) # rest) registry =
     (case shouldIndex fingerprint now document registry of
        (answer, registry') \<Rightarrow>
          (case shouldIndex_all fingerprint rest registry' of
             (answers, registry'') \<Rightarrow> (answer # answers, registry'')))"

subsection \<open>Crawl Orchestrator\<close>

text \<open>Modelled from the spec: the states of the state machine of section 4.7
  (crawler.py is missing).\<close>

datatype phase = Idle | Running | Draining | Done

text \<open>Modelled from the spec: the \<open>FetchResult\<close> of section 3 (crawler.py is
  missing).\<close>

record FetchResult =
  fetched_url :: string
  statusCode :: nat
  bodyBytes :: string
  contentType :: string
  fetchedAt :: nat
  error :: "string option"

text \<open>Modelled from the spec: the recognized options of section 6 that bound the crawl
  (crawler.py is missing), and the depth cap of section 4.1.\<close>

record crawl_config =
  SEED_URLS :: "string list"
  MAX_PAGES :: nat
  MAX_DEPTH :: nat

text \<open>Modelled from the spec: the collaborators the orchestrator of section 4.7 calls
  (crawler.py is missing), as functions: the robots decision of the
  Politeness Controller, the Fetcher (its answer may depend on the time of the
  request), the Content Extractor (no document for content that is not HTML-like,
  else the document and its outbound links), and the content hash.\<close>

record 'h collaborators =
  isAllowed :: "string \<Rightarrow> bool"
  fetch :: "nat \<Rightarrow> string \<Rightarrow> FetchResult"
  extract_doc :: "FetchResult \<Rightarrow> (Document \<times> string list) option"
  fingerprint :: "string \<Rightarrow> 'h"

text \<open>Modelled from the spec: the state the orchestrator of section 4.7 drives
  (crawler.py is missing): Frontier, ContentFingerprint registry, the documents
  submitted to the Index Sink, whether \<open>flush()\<close> was called, and the counts reported
  at the end.\<close>

record 'h crawl_state =
  phase_of :: phase
  frontier :: Frontier
  registry :: "'h \<rightharpoonup> nat"
  submitted :: "Document list"
  flushed :: bool
  fetched :: nat
  indexed :: nat
  skipped :: nat
  clock :: nat

text \<open>Modelled from the spec: the state before the run starts (\<open>Idle\<close>, nothing
  pending, visited, registered or submitted), and the entries the orchestrator offers:
  a seed at depth 0, a discovered link at the depth of its page plus one (section 4.7;
  crawler.py is missing).\<close>

definition initial_state :: "'h crawl_state" where
  "initial_state =
     \<lparr> phase_of = Idle, frontier = empty_frontier, registry = Map.empty, submitted = [],
       flushed = False, fetched = 0, indexed = 0, skipped = 0, clock = 0 \<rparr>"

definition seed_entry :: "string \<Rightarrow> FrontierEntry" where
  "seed_entry u = \<lparr> url = u, depth = 0, discoveredFrom = None \<rparr>"

definition link_entry :: "FrontierEntry \<Rightarrow> string \<Rightarrow> FrontierEntry" where
  "link_entry parent u = \<lparr> url = u, depth = depth parent + 1, discoveredFrom = Some (url parent) \<rparr>"

text \<open>Modelled from the spec: one transition of the state machine of section 4.7
  (crawler.py is missing). \<open>Idle\<close> offers the seeds and starts. \<open>Running\<close> takes an
  entry (empty frontier: \<open>Draining\<close>); checks the page budget (reached: \<open>Draining\<close>);
  asks the Politeness Controller (disallowed: discard, continue); fetches (error:
  discard, continue); extracts; asks the Deduplicator; if it answers true, submits the
  document and offers each discovered link at depth + 1. \<open>Draining\<close> flushes the
  Index Sink. \<open>Done\<close> is terminal.\<close>

definition step :: "crawl_config \<Rightarrow> 'h collaborators \<Rightarrow> 'h crawl_state \<Rightarrow> 'h crawl_state" where
  "step cfg w s =
     (case phase_of s of
        Idle \<Rightarrow>
          s \<lparr> phase_of := Running,
              frontier := fold (offer (MAX_DEPTH cfg)) (map seed_entry (SEED_URLS cfg)) (frontier s) \<rparr>
      | Running \<Rightarrow>
          (case take_next (frontier s) of
             (None, F) \<Rightarrow> s \<lparr> phase_of := Draining \<rparr>
           | (Some entry, F) \<Rightarrow>
               if MAX_PAGES cfg \<le> fetched s then s \<lparr> frontier := F, phase_of := Draining \<rparr>
               else if \<not> isAllowed w (url entry) then
                 s \<lparr> frontier := F, skipped := skipped s + 1 \<rparr>
               else
                 let r = fetch w (clock s) (url entry);
                     s1 = s \<lparr> frontier := F, fetched := fetched s + 1, clock := clock s + 1 \<rparr>
                 in if error r \<noteq> None then s1 \<lparr> skipped := skipped s + 1 \<rparr>
                    else
                      (case extract_doc w r of
                         None \<Rightarrow> s1 \<lparr> skipped := skipped s + 1 \<rparr>
                       | Some (document, links) \<Rightarrow>
                           (case shouldIndex (fingerprint w) (clock s) document (registry s) of
                              (False, reg) \<Rightarrow> s1 \<lparr> registry := reg, skipped := skipped s + 1 \<rparr>
                            | (True, reg) \<Rightarrow>
                                s1 \<lparr> registry := reg,
                                     submitted := submitted s @ [document],
                                     indexed := indexed s + 1,
                                     frontier := fold (offer (MAX_DEPTH cfg))
                                                   (map (link_entry entry) links) F \<rparr>)))
      | Draining \<Rightarrow> s \<lparr> phase_of := Done, flushed := True \<rparr>
      | Done \<Rightarrow> s)"

text \<open>Modelled from the spec: the state after \<open>k\<close> transitions of a crawl run that
  starts in \<open>Idle\<close> (section 4.7; crawler.py is missing).\<close>

definition crawl :: "crawl_config \<Rightarrow> 'h collaborators \<Rightarrow> nat \<Rightarrow> 'h crawl_state" where
  "crawl cfg w k = (step cfg w ^^ k) initial_state"

text \<open>Modelled from the spec: the document that the next transition of the
  orchestrator of section 4.7 passes to \<open>shouldIndex\<close>, with the timestamp of the call
  (crawler.py is missing): there is one exactly when the state is \<open>Running\<close>, an entry
  is taken, the budget is not reached, the URL is allowed, the fetch has no error and
  the Content Extractor returns a document.\<close>

definition document_met ::
  "crawl_config \<Rightarrow> 'h collaborators \<Rightarrow> 'h crawl_state \<Rightarrow> (nat \<times> Document) option" where
  "document_met cfg w s =
     (case phase_of s of
        Running \<Rightarrow>
          (case take_next (frontier s) of
             (None, F) \<Rightarrow> None
           | (Some entry, F) \<Rightarrow>
               if MAX_PAGES cfg \<le> fetched s then None
               else if \<not> isAllowed w (url entry) then None
               else
                 let r = fetch w (clock s) (url entry)
                 in if error r \<noteq> None then None
                    else (case extract_doc w r of
                            None \<Rightarrow> None
                          | Some (document, links) \<Rightarrow> Some (clock s, document)))
      | _ \<Rightarrow> None)"

text \<open>Modelled from the spec: the documents encountered in the first \<open>k\<close> transitions
  of a crawl run, in the order in which they are passed to the Deduplicator (section
  4.7; crawler.py is missing).\<close>

fun encountered :: "crawl_config \<Rightarrow> 'h collaborators \<Rightarrow> nat \<Rightarrow> (nat \<times> Document) list" where
  "encountered cfg w 0 = []"
| "encountered cfg w (Suc k) =
     encountered cfg w k @
     (case document_met cfg w (crawl cfg w k) of None \<Rightarrow> [] | Some p \<Rightarrow> [p])"

section \<open>Definitions used to state the properties\<close>

text \<open>What the two conversion steps of the loop of \<open>performSearch\<close> make of one hit:
  the decoded document, or nothing when either step fails.\<close>

definition decode_hit :: "json \<Rightarrow> (string \<rightharpoonup> json) option" where
  "decode_hit hit =
     (case json_Marshal hit of
        Inl e \<Rightarrow> None
      | Inr b \<Rightarrow> (case json_Unmarshal b of Inl e \<Rightarrow> None | Inr doc \<Rightarrow> Some doc))"

text \<open>The result for the document of the hit at index \<open>j\<close> among \<open>n\<close> hits.\<close>

definition result_of :: "nat \<Rightarrow> nat \<Rightarrow> (string \<rightharpoonup> json) \<Rightarrow> SearchResult" where
  "result_of n j doc =
     \<lparr> ID = getString doc ''id'', Title = getString doc ''title'',
       Content = getString doc ''content'', URL = getString doc ''url'',
       Score = int n - int j \<rparr>"

text \<open>One result for each hit that converts cleanly, in hit order; \<open>i\<close> is the index
  of the first hit of \<open>hs\<close>.\<close>

definition clean_results :: "nat \<Rightarrow> nat \<Rightarrow> json list \<Rightarrow> SearchResult list" where
  "clean_results n i hs =
     List.map_filter (\<lambda>(j, hit). map_option (result_of n j) (decode_hit hit)) (enumerate i hs)"

text \<open>Reading a field of a JSON object, and of the JSON body of a response of the
  JavaScript handler.\<close>

fun json_field :: "json \<Rightarrow> string \<Rightarrow> json option" where
  "json_field (JObject kvs) k = map_of kvs k"
| "json_field _ k = None"

definition response_field :: "js_response \<Rightarrow> string \<Rightarrow> json option" where
  "response_field r k = (case res_json r of None \<Rightarrow> None | Some v \<Rightarrow> json_field v k)"

text \<open>The Frontier invariant: the pending entries have pairwise distinct URLs, none of
  which is in the VisitedSet.\<close>

definition frontier_inv :: "Frontier \<Rightarrow> bool" where
  "frontier_inv F =
     (distinct (map url (pending F)) \<and> url ` set (pending F) \<inter> VisitedSet F = {})"

text \<open>The content hash of a document, as the Deduplicator computes it.\<close>

definition hash_of :: "(string \<Rightarrow> 'h) \<Rightarrow> Document \<Rightarrow> 'h" where
  "hash_of fp document = fp (doc_content document)"

text \<open>The Deduplicator invariant of a crawl state: the submitted documents have
  pairwise distinct content hashes, all recorded in the registry.\<close>

definition dedup_inv :: "'h collaborators \<Rightarrow> 'h crawl_state \<Rightarrow> bool" where
  "dedup_inv w s =
     (distinct (map (hash_of (fingerprint w)) (submitted s)) \<and>
      hash_of (fingerprint w) ` set (submitted s) \<subseteq> dom (registry s))"

text \<open>The documents of a list that are the first of their content hash: those at an
  index \<open>j\<close> such that no document at an earlier index has the same hash, in order.\<close>

definition first_occurrences :: "(string \<Rightarrow> 'h) \<Rightarrow> (nat \<times> Document) list \<Rightarrow> Document list" where
  "first_occurrences fp ds =
     map (\<lambda>j. snd (ds ! j))
       (filter (\<lambda>j. \<forall>i < j. hash_of fp (snd (ds ! i)) \<noteq> hash_of fp (snd (ds ! j)))
          [0 ..< length ds])"

text \<open>Concrete inputs for the examples.\<close>

definition example_env :: environ where
  "example_env = [''PORT'' \<mapsto> ''9090'', ''INDEX_NAME'' \<mapsto> []]"

definition example_hits :: "json list" where
  "example_hits =
     [JObject [(''id'', JString ''a''), (''title'', JNumber 7)],
      JNumber 1,
      JObject [(''id'', JString ''b''), (''url'', JString ''http://b.test/'')]]"

definition example_client :: meili_client where
  "example_client indexName query req =
     (if query = ''down'' then Inl ''connection refused'' else Inr example_hits)"






definition empty_q_request :: js_request where
  "empty_q_request = \<lparr> req_method = ''GET'', query_q = QString [], query_limit = QUndefined \<rparr>"

definition down_request :: js_request where
  "down_request = \<lparr> req_method = ''GET'', query_q = QString ''down'', query_limit = QUndefined \<rparr>"

definition repeated_q_request :: js_request where
  "repeated_q_request =
     \<lparr> req_method = ''GET'', query_q = QArray [''a'', ''b''], query_limit = QUndefined \<rparr>"

definition example_js_results :: js_search_results where
  "example_js_results =
     \<lparr> hits = [[(''id'', JString ''a''), (''title'', JNumber 0)], []],
       processingTimeMs = Some (JNumber 3) \<rparr>"

definition example_parseInt :: "json \<Rightarrow> json" where
  "example_parseInt v = v"

definition example_js_client :: "json js_client" where
  "example_js_client uid query opts =
     (if query = ''down'' then Inl (JsError ''connection refused'')
      else Inr example_js_results)"

definition entry_a :: FrontierEntry where
  "entry_a = \<lparr> url = ''http://a.test/'', depth = 0, discoveredFrom = None \<rparr>"

definition entry_a_again :: FrontierEntry where
  "entry_a_again = \<lparr> url = ''http://a.test/'', depth = 1, discoveredFrom = Some ''http://b.test/'' \<rparr>"

definition entry_b :: FrontierEntry where
  "entry_b = \<lparr> url = ''http://b.test/'', depth = 1, discoveredFrom = Some ''http://a.test/'' \<rparr>"

definition page :: "string \<Rightarrow> string \<Rightarrow> Document" where
  "page u text = \<lparr> doc_id = u, doc_title = u, doc_content = text, doc_url = u, contentHash = text \<rparr>"

definition identity_hash :: "string \<Rightarrow> string" where
  "identity_hash text = text"

definition example_docs :: "(nat \<times> Document) list" where
  "example_docs =
     [(1, page ''http://a.test/'' ''x''), (2, page ''http://b.test/'' ''y''),
      (3, page ''http://c.test/'' ''x'')]"

text \<open>A small web: every page is allowed and fetched without error, every page has the
  same text and links to \<open>http://b.test/\<close>; the content hash is the text itself.\<close>

definition mirror_web :: "string collaborators" where
  "mirror_web =
     \<lparr> isAllowed = (\<lambda>u. True),
       fetch = (\<lambda>t u. \<lparr> fetched_url = u, statusCode = 200, bodyBytes = ''same'',
                         contentType = ''text/html'', fetchedAt = t, error = None \<rparr>),
       extract_doc = (\<lambda>r. Some (page (fetched_url r) (bodyBytes r), [''http://b.test/''])),
       fingerprint = identity_hash \<rparr>"

definition two_seeds :: crawl_config where
  "two_seeds = \<lparr> SEED_URLS = [''http://a.test/'', ''http://c.test/''], MAX_PAGES = 1, MAX_DEPTH = 3 \<rparr>"

definition three_pages :: crawl_config where
  "three_pages = \<lparr> SEED_URLS = [''http://a.test/''], MAX_PAGES = 3, MAX_DEPTH = 3 \<rparr>"

section \<open>Properties of the Go query proxy\<close>

subsection \<open>Configuration\<close>

lemma getEnv_cases:
  "getEnv env key d = (case env key of None \<Rightarrow> d | Some v \<Rightarrow> if v = [] then d else v)"
  by (simp add: getEnv_def os_Getenv_def split: option.split)

lemma getEnv_nonempty: "d \<noteq> [] \<Longrightarrow> getEnv env key d \<noteq> []"
  by (simp add: getEnv_cases split: option.split)

text \<open>
  Claim C10. Each of the four configuration fields read by \<open>loadConfig\<close>
  (\<open>MEILISEARCH_URL\<close>, \<open>MEILISEARCH_KEY\<close>, \<open>PORT\<close>, \<open>INDEX_NAME\<close>) is the value of its
  environment variable when that is set to a non-empty string, and the built-in default
  when the variable is unset or empty; so no field of the configuration is ever the
  empty string.
\<close>

theorem loadConfig_env_or_default:
  "MeilisearchURL (loadConfig env) =
     (case env ''MEILISEARCH_URL'' of None \<Rightarrow> ''http://meilisearch:7700''
      | Some v \<Rightarrow> if v = [] then ''http://meilisearch:7700'' else v) \<and>
   MeilisearchKey (loadConfig env) =
     (case env ''MEILISEARCH_KEY'' of None \<Rightarrow> ''masterKey123''
      | Some v \<Rightarrow> if v = [] then ''masterKey123'' else v) \<and>
   Port (loadConfig env) =
     (case env ''PORT'' of None \<Rightarrow> ''8080'' | Some v \<Rightarrow> if v = [] then ''8080'' else v) \<and>
   IndexName (loadConfig env) =
     (case env ''INDEX_NAME'' of None \<Rightarrow> ''documents''
      | Some v \<Rightarrow> if v = [] then ''documents'' else v) \<and>
   MeilisearchURL (loadConfig env) \<noteq> [] \<and> MeilisearchKey (loadConfig env) \<noteq> [] \<and>
   Port (loadConfig env) \<noteq> [] \<and> IndexName (loadConfig env) \<noteq> []"
proof -
  have "MeilisearchURL (loadConfig env) = getEnv env ''MEILISEARCH_URL'' ''http://meilisearch:7700''"
    and "MeilisearchKey (loadConfig env) = getEnv env ''MEILISEARCH_KEY'' ''masterKey123''"
    and "Port (loadConfig env) = getEnv env ''PORT'' ''8080''"
    and "IndexName (loadConfig env) = getEnv env ''INDEX_NAME'' ''documents''"
    by (simp_all add: loadConfig_def)
  then show ?thesis
    by (simp add: getEnv_nonempty) (simp add: getEnv_cases)
qed

text \<open>With \<open>PORT=9090\<close> and \<open>INDEX_NAME\<close> set to the empty string, the port is taken
  from the environment and the three other fields are the defaults.\<close>

theorem loadConfig_env_or_default_witness:
  "MeilisearchURL (loadConfig example_env) = ''http://meilisearch:7700'' \<and>
   MeilisearchKey (loadConfig example_env) = ''masterKey123'' \<and>
   Port (loadConfig example_env) = ''9090'' \<and>
   IndexName (loadConfig example_env) = ''documents''"
  using loadConfig_env_or_default [of example_env]
  by (simp add: example_env_def)

subsection \<open>The loop of \<open>performSearch\<close>\<close>

lemma clean_results_Nil: "clean_results n i [] = []"
  by (simp add: clean_results_def map_filter_simps)

lemma clean_results_Cons:
  "clean_results n i (h # hs) =
     (case decode_hit h of None \<Rightarrow> clean_results n (Suc i) hs
      | Some doc \<Rightarrow> result_of n i doc # clean_results n (Suc i) hs)"
  by (simp add: clean_results_def map_filter_simps split: option.split)

lemma performSearch_loop_clean:
  "performSearch_loop n i hs acc = acc @ clean_results n i hs"
proof (induction hs arbitrary: i acc)
  case Nil
  show ?case by (simp add: clean_results_Nil)
next
  case (Cons h hs)
  show ?case
    by (simp add: Cons.IH clean_results_Cons decode_hit_def result_of_def
        split: sum.split)
qed

lemma performSearch_ok:
  "client indexName q (search_request lim) = Inr hs \<Longrightarrow>
   performSearch client indexName q lim =
     (Inr (clean_results (length hs) 0 hs), [(indexName, q, search_request lim)])"
  by (simp add: performSearch_def performSearch_loop_clean)

lemma performSearch_err:
  "client indexName q (search_request lim) = Inl e \<Longrightarrow>
   performSearch client indexName q lim = (Inl e, [(indexName, q, search_request lim)])"
  by (simp add: performSearch_def)





lemma clean_results_length:
  "length (clean_results n i hs) = length (filter (\<lambda>h. decode_hit h \<noteq> None) hs)"
  by (induction hs arbitrary: i) (auto simp: clean_results_Nil clean_results_Cons)

lemma decode_hit_simps:
  "decode_hit (JObject kvs) = Some (map_of kvs)"
  "decode_hit JNull = Some Map.empty"
  "decode_hit (JBool b) = None"
  "decode_hit (JNumber k) = None"
  "decode_hit (JString s) = None"
  "decode_hit (JArray xs) = None"
  by (simp_all add: decode_hit_def json_Marshal_def)

lemma example_hits_results:
  "clean_results 3 0 example_hits =
     [\<lparr> ID = ''a'', Title = [], Content = [], URL = [], Score = 3 \<rparr>,
      \<lparr> ID = ''b'', Title = [], Content = [], URL = ''http://b.test/'', Score = 1 \<rparr>]"
  by (simp add: example_hits_def clean_results_Cons clean_results_Nil decode_hit_simps
      result_of_def getString_def)

text \<open>
  Claim C9. \<open>getString\<close> yields the empty string for a key that is absent or whose value
  is not a string, and the string otherwise. Whenever the search engine returns a list
  of hits, \<open>performSearch\<close> returns a result list and no error: one result for each hit
  that both conversion steps accept, in hit order, its four text fields read with
  \<open>getString\<close>; the hits that fail to convert are skipped.
\<close>

theorem performSearch_total:
  "(m ka = None \<longrightarrow> getString m ka = []) \<and>
   (m kb = Some v \<and> (\<forall>s. v \<noteq> JString s) \<longrightarrow> getString m kb = []) \<and>
   (m kc = Some (JString s) \<longrightarrow> getString m kc = s) \<and>
   (client indexName q (search_request lim) = Inr hs \<longrightarrow>
      fst (performSearch client indexName q lim) = Inr (clean_results (length hs) 0 hs) \<and>
      length (clean_results (length hs) 0 hs) =
        length (filter (\<lambda>h. decode_hit h \<noteq> None) hs))"
proof -
  have absent: "m ka = None \<longrightarrow> getString m ka = []"
    by (simp add: getString_def)
  have other: "m kb = Some v \<and> (\<forall>s. v \<noteq> JString s) \<longrightarrow> getString m kb = []"
    by (cases v) (simp_all add: getString_def)
  have str: "m kc = Some (JString s) \<longrightarrow> getString m kc = s"
    by (simp add: getString_def)
  have loop: "client indexName q (search_request lim) = Inr hs \<longrightarrow>
      fst (performSearch client indexName q lim) = Inr (clean_results (length hs) 0 hs) \<and>
      length (clean_results (length hs) 0 hs) =
        length (filter (\<lambda>h. decode_hit h \<noteq> None) hs)"
    by (simp add: performSearch_ok clean_results_length)
  from absent other str loop show ?thesis by blast
qed

text \<open>The example engine returns an object with a numeric title, a bare number and an
  object without a title: the number is skipped, and every missing or non-string field
  is the empty string.\<close>

theorem performSearch_total_witness:
  "getString [''title'' \<mapsto> JNumber 7, ''id'' \<mapsto> JString ''a''] ''url'' = [] \<and>
   getString [''title'' \<mapsto> JNumber 7, ''id'' \<mapsto> JString ''a''] ''title'' = [] \<and>
   getString [''title'' \<mapsto> JNumber 7, ''id'' \<mapsto> JString ''a''] ''id'' = ''a'' \<and>
   fst (performSearch example_client ''documents'' ''go'' 20) =
     Inr [\<lparr> ID = ''a'', Title = [], Content = [], URL = [], Score = 3 \<rparr>,
          \<lparr> ID = ''b'', Title = [], Content = [], URL = ''http://b.test/'', Score = 1 \<rparr>] \<and>
   length (filter (\<lambda>h. decode_hit h \<noteq> None) example_hits) = 2"
proof -
  have engine: "example_client ''documents'' ''go'' (search_request 20) = Inr example_hits"
    by (simp add: example_client_def)
  have len: "length example_hits = 3"
    by (simp add: example_hits_def)
  have absent: "[''title'' \<mapsto> JNumber 7, ''id'' \<mapsto> JString ''a''] ''url'' = None"
    and other: "[''title'' \<mapsto> JNumber 7, ''id'' \<mapsto> JString ''a''] ''title'' = Some (JNumber 7)
                \<and> (\<forall>s. JNumber 7 \<noteq> JString s)"
    and str: "[''title'' \<mapsto> JNumber 7, ''id'' \<mapsto> JString ''a''] ''id'' = Some (JString ''a'')"
    by simp_all
  show ?thesis
    using performSearch_total [of "[''title'' \<mapsto> JNumber 7, ''id'' \<mapsto> JString ''a'']"
        "''url''" "''title''" "JNumber 7" "''id''" "''a''"
        example_client "''documents''" "''go''" 20 example_hits]
      engine absent other str
    by (simp only: len example_hits_results) simp
qed

subsection \<open>Scores\<close>



subsection \<open>The \<open>/search\<close> endpoint\<close>

lemma gin_Query_absent: "vs key = None \<Longrightarrow> gin_Query vs key = []"
  by (simp add: gin_Query_def GetQuery_def)

lemma gin_Query_first: "vs key = Some (v # rest) \<Longrightarrow> gin_Query vs key = v"
  by (simp add: gin_Query_def GetQuery_def)

lemma DefaultQuery_absent: "vs key = None \<Longrightarrow> DefaultQuery vs key d = d"
  by (simp add: DefaultQuery_def GetQuery_def)

lemma DefaultQuery_first: "vs key = Some (v # rest) \<Longrightarrow> DefaultQuery vs key d = v"
  by (simp add: DefaultQuery_def GetQuery_def)

lemma search_endpoint_no_query:
  "gin_Query vs ''q'' = [] \<Longrightarrow>
   search_endpoint client config vs =
     (\<lparr> status = 400,
         body = \<lparr> Success = False, Results = [], Error = ''Query parameter 'q' is required'',
                  Query = [], Total = 0 \<rparr> \<rparr>,
      [])"
  by (simp add: search_endpoint_def empty_response_def)

lemma search_endpoint_query:
  "gin_Query vs ''q'' = q \<Longrightarrow> q \<noteq> [] \<Longrightarrow>
   search_endpoint client config vs =
     (case client (IndexName config) q (search_request (parse_limit vs)) of
        Inl e \<Rightarrow>
          \<lparr> status = 500,
            body = \<lparr> Success = False, Results = [], Error = ''Search failed: '' @ e,
                     Query = q, Total = 0 \<rparr> \<rparr>
      | Inr hs \<Rightarrow>
          \<lparr> status = 200,
            body = \<lparr> Success = True, Results = clean_results (length hs) 0 hs, Error = [],
                     Query = q, Total = int (length (clean_results (length hs) 0 hs)) \<rparr> \<rparr>,
      [(IndexName config, q, search_request (parse_limit vs))])"
  by (auto simp: search_endpoint_def empty_response_def performSearch_ok performSearch_err
      split: sum.split)

lemma js_trim_nonempty: "js_trim s \<noteq> [] \<Longrightarrow> s \<noteq> []"
  by (auto simp: js_trim_def)

lemma handler_no_query:
  "req_method req = ''GET'' \<Longrightarrow> query_q req = QUndefined \<or> query_q req = QString [] \<Longrightarrow>
   handler parseInt jsclient req =
     (\<lparr> res_status = 400,
         res_json = Some (JObject [(''success'', JBool False),
                                  (''error'', JString ''Query parameter \"q\" is required'')]) \<rparr>,
      [])"
  by (auto simp: handler_def handler_try_def)

lemma handler_query:
  "req_method req = ''GET'' \<Longrightarrow> query_q req = QString jq \<Longrightarrow> js_trim jq \<noteq> [] \<Longrightarrow>
   handler parseInt jsclient req =
     (case jsclient ''documents'' jq
             (js_search_options (parseInt (limit_or_default (query_limit req)))) of
        Inl (JsError msg) \<Rightarrow>
          \<lparr> res_status = 500,
            res_json = Some (JObject [(''success'', JBool False),
                                     (''error'', JString ''Search failed''),
                                     (''message'', JString msg)]) \<rparr>
      | Inr sr \<Rightarrow>
          \<lparr> res_status = 200,
            res_json = Some (JObject
              ([(''success'', JBool True),
                (''results'', JArray (map (format_result (length (hits sr))) (enumerate 0 (hits sr)))),
                (''query'', JString jq),
                (''total'', JNumber (int (length (hits sr))))] @
               (case processingTimeMs sr of None \<Rightarrow> [] | Some t \<Rightarrow> [(''processingTimeMs'', t)]))) \<rparr>,
      [(''documents'', jq, js_search_options (parseInt (limit_or_default (query_limit req))))])"
  using js_trim_nonempty[of jq]
  by (auto simp: handler_def handler_try_def Let_def split: sum.split js_error.split)

text \<open>
  Claim C1. A request to the search operation whose parameter \<open>q\<close> is absent or empty
  is answered with status 400, \<open>success = false\<close> and a non-empty error message, with
  no result list, and no call is made to the search engine. This holds for the Go
  endpoint and, for a GET request, for the JavaScript handler.
\<close>

theorem missing_query_is_client_error:
  "(vs ''q'' = None \<or> vs ''q'' = Some ([] # rest) \<longrightarrow>
      search_endpoint client config vs =
        (\<lparr> status = 400,
            body = \<lparr> Success = False, Results = [], Error = ''Query parameter 'q' is required'',
                     Query = [], Total = 0 \<rparr> \<rparr>,
         [])) \<and>
   (req_method req = ''GET'' \<and> (query_q req = QUndefined \<or> query_q req = QString []) \<longrightarrow>
      handler parseInt jsclient req =
        (\<lparr> res_status = 400,
            res_json = Some (JObject [(''success'', JBool False),
                                     (''error'', JString ''Query parameter \"q\" is required'')]) \<rparr>,
         []) \<and>
      response_field (fst (handler parseInt jsclient req)) ''results'' = None)"
proof -
  have go: "search_endpoint client config vs =
        (\<lparr> status = 400,
            body = \<lparr> Success = False, Results = [], Error = ''Query parameter 'q' is required'',
                     Query = [], Total = 0 \<rparr> \<rparr>,
         [])"
    if "vs ''q'' = None \<or> vs ''q'' = Some ([] # rest)"
  proof -
    from that have "gin_Query vs ''q'' = []"
      by (auto simp: gin_Query_absent gin_Query_first)
    then show ?thesis by (rule search_endpoint_no_query)
  qed
  have js: "handler parseInt jsclient req =
        (\<lparr> res_status = 400,
            res_json = Some (JObject [(''success'', JBool False),
                                     (''error'', JString ''Query parameter \"q\" is required'')]) \<rparr>,
         []) \<and>
      response_field (fst (handler parseInt jsclient req)) ''results'' = None"
    if "req_method req = ''GET''" "query_q req = QUndefined \<or> query_q req = QString []"
    using handler_no_query[OF that, of parseInt jsclient]
    by (simp add: response_field_def)
  from go js show ?thesis by blast
qed

text \<open>A request without parameters to the Go endpoint, and a GET request with an empty
  \<open>q\<close> to the JavaScript handler.\<close>

theorem missing_query_is_client_error_witness:
  "search_endpoint example_client (loadConfig example_env) Map.empty =
     (\<lparr> status = 400,
         body = \<lparr> Success = False, Results = [], Error = ''Query parameter 'q' is required'',
                  Query = [], Total = 0 \<rparr> \<rparr>,
      []) \<and>
   handler example_parseInt example_js_client empty_q_request =
     (\<lparr> res_status = 400,
         res_json = Some (JObject [(''success'', JBool False),
                                  (''error'', JString ''Query parameter \"q\" is required'')]) \<rparr>,
      []) \<and>
   response_field (fst (handler example_parseInt example_js_client empty_q_request)) ''results''
     = None"
proof -
  have "Map.empty ''q'' = None \<or> Map.empty ''q'' = Some ([] # [])"
    by simp
  moreover have "req_method empty_q_request = ''GET'' \<and>
      (query_q empty_q_request = QUndefined \<or> query_q empty_q_request = QString [])"
    by (simp add: empty_q_request_def)
  ultimately show ?thesis
    using missing_query_is_client_error [of Map.empty "[]" example_client
        "loadConfig example_env" empty_q_request example_parseInt example_js_client]
    by blast
qed
text \<open>
  Claim C2. When the call to the search engine returns an error, the Go endpoint
  answers with status 500, \<open>success = false\<close>, the error message
  \<open>"Search failed: "\<close> followed by the engine's message, and the echoed query; the
  JavaScript handler answers a GET request with status 500, \<open>success = false\<close>, the
  error \<open>"Search failed"\<close> and the exception's message. Both return a response: in
  the JavaScript handler every exception raised inside the \<open>try\<close> block is turned
  into the 500 response.
\<close>

theorem engine_error_is_server_error:
  "(vs ''q'' = Some (q # rest) \<and> q \<noteq> [] \<and>
    client (IndexName config) q (search_request (parse_limit vs)) = Inl e \<longrightarrow>
      search_endpoint client config vs =
        (\<lparr> status = 500,
            body = \<lparr> Success = False, Results = [], Error = ''Search failed: '' @ e,
                     Query = q, Total = 0 \<rparr> \<rparr>,
         [(IndexName config, q, search_request (parse_limit vs))])) \<and>
   (req_method req = ''GET'' \<and> query_q req = QString jq \<and> js_trim jq \<noteq> [] \<and>
    jsclient ''documents'' jq (js_search_options (parseInt (limit_or_default (query_limit req))))
      = Inl (JsError msg) \<longrightarrow>
      handler parseInt jsclient req =
        (\<lparr> res_status = 500,
            res_json = Some (JObject [(''success'', JBool False),
                                     (''error'', JString ''Search failed''),
                                     (''message'', JString msg)]) \<rparr>,
         [(''documents'', jq,
           js_search_options (parseInt (limit_or_default (query_limit req))))])) \<and>
   (req_method req' = ''GET'' \<and> fst (handler_try parseInt jsclient req') = Inl (JsError msg') \<longrightarrow>
      fst (handler parseInt jsclient req') =
        \<lparr> res_status = 500,
          res_json = Some (JObject [(''success'', JBool False),
                                   (''error'', JString ''Search failed''),
                                   (''message'', JString msg')]) \<rparr>)"
proof -
  have go: "search_endpoint client config vs =
        (\<lparr> status = 500,
            body = \<lparr> Success = False, Results = [], Error = ''Search failed: '' @ e,
                     Query = q, Total = 0 \<rparr> \<rparr>,
         [(IndexName config, q, search_request (parse_limit vs))])"
    if "vs ''q'' = Some (q # rest)" "q \<noteq> []"
      "client (IndexName config) q (search_request (parse_limit vs)) = Inl e"
  proof -
    from that(1) have "gin_Query vs ''q'' = q"
      by (simp add: gin_Query_def GetQuery_def)
    from search_endpoint_query[OF this that(2), of client config] that(3)
    show ?thesis by simp
  qed
  have js: "handler parseInt jsclient req =
        (\<lparr> res_status = 500,
            res_json = Some (JObject [(''success'', JBool False),
                                     (''error'', JString ''Search failed''),
                                     (''message'', JString msg)]) \<rparr>,
         [(''documents'', jq,
           js_search_options (parseInt (limit_or_default (query_limit req))))])"
    if "req_method req = ''GET''" "query_q req = QString jq" "js_trim jq \<noteq> []"
      "jsclient ''documents'' jq (js_search_options (parseInt (limit_or_default (query_limit req))))
        = Inl (JsError msg)"
    using that(4) handler_query[OF that(1,2,3), of parseInt jsclient]
    by simp
  have catch: "fst (handler parseInt jsclient req') =
        \<lparr> res_status = 500,
          res_json = Some (JObject [(''success'', JBool False),
                                   (''error'', JString ''Search failed''),
                                   (''message'', JString msg')]) \<rparr>"
    if "req_method req' = ''GET''" "fst (handler_try parseInt jsclient req') = Inl (JsError msg')"
    using that by (cases "handler_try parseInt jsclient req'") (simp add: handler_def)
  from go js catch show ?thesis by blast
qed

text \<open>The example engines fail on the query \<open>down\<close>; a repeated \<open>q\<close> parameter makes
  \<open>query.trim\<close> raise inside the \<open>try\<close> block.\<close>

theorem engine_error_is_server_error_witness:
  "search_endpoint example_client (loadConfig example_env) [''q'' \<mapsto> [''down'']] =
     (\<lparr> status = 500,
         body = \<lparr> Success = False, Results = [],
                  Error = ''Search failed: connection refused'',
                  Query = ''down'', Total = 0 \<rparr> \<rparr>,
      [(''documents'', ''down'', search_request 20)]) \<and>
   handler example_parseInt example_js_client down_request =
     (\<lparr> res_status = 500,
         res_json = Some (JObject [(''success'', JBool False),
                                  (''error'', JString ''Search failed''),
                                  (''message'', JString ''connection refused'')]) \<rparr>,
      [(''documents'', ''down'', js_search_options (JNumber 20))]) \<and>
   fst (handler example_parseInt example_js_client repeated_q_request) =
     \<lparr> res_status = 500,
       res_json = Some (JObject [(''success'', JBool False),
                                (''error'', JString ''Search failed''),
                                (''message'', JString ''query.trim is not a function'')]) \<rparr>"
proof -
  have lim: "parse_limit [''q'' \<mapsto> [''down'']] = 20"
    by (simp add: parse_limit_def DefaultQuery_def GetQuery_def Atoi_def ParseInt_def ParseUint_def
        is_digit_def)
  have cfg: "IndexName (loadConfig example_env) = ''documents''"
    by (simp add: loadConfig_def getEnv_def os_Getenv_def example_env_def)
  have go: "[''q'' \<mapsto> [''down'']] ''q'' = Some (''down'' # []) \<and> ''down'' \<noteq> [] \<and>
      example_client (IndexName (loadConfig example_env)) ''down''
        (search_request (parse_limit [''q'' \<mapsto> [''down'']])) = Inl ''connection refused''"
    by (simp add: example_client_def)
  have js: "req_method down_request = ''GET'' \<and> query_q down_request = QString ''down'' \<and>
      js_trim ''down'' \<noteq> [] \<and>
      example_js_client ''documents'' ''down''
        (js_search_options (example_parseInt (limit_or_default (query_limit down_request))))
        = Inl (JsError ''connection refused'')"
    by (simp add: down_request_def js_trim_def js_is_space_def example_js_client_def)
  have jl: "example_parseInt (limit_or_default (query_limit down_request)) = JNumber 20"
    by (simp add: down_request_def example_parseInt_def limit_or_default_def)
  have thrown: "req_method repeated_q_request = ''GET'' \<and>
      fst (handler_try example_parseInt example_js_client repeated_q_request)
        = Inl (JsError ''query.trim is not a function'')"
    by (simp add: repeated_q_request_def handler_try_def)
  show ?thesis
    using engine_error_is_server_error [of "[''q'' \<mapsto> [''down'']]" "''down''" "[]"
        example_client "loadConfig example_env" "''connection refused''"
        down_request "''down''" example_js_client example_parseInt "''connection refused''"
        repeated_q_request "''query.trim is not a function''"]
      go js thrown
    unfolding lim cfg jl by simp
qed






subsection \<open>The limit parameter\<close>

lemma Atoi_range: "Atoi s = Inr k \<Longrightarrow> - (2 ^ 63) \<le> k \<and> k < 2 ^ 63"
  by (auto simp: Atoi_def ParseInt_def Let_def
      split: list.splits sum.splits NumError.splits if_splits)

lemma Atoi_20: "Atoi ''20'' = Inr 20"
  by (simp add: Atoi_def ParseInt_def ParseUint_def is_digit_def)

text \<open>
  Claim C3, as stated, fails: the request \<open>q=go&limit=-5\<close> is served by a search whose
  limit is \<open>-5\<close>, and \<open>q=go&limit=0\<close> by a search whose limit is 0; neither is a
  positive integer.
\<close>

theorem limit_positive_counterexample:
  "snd (search_endpoint example_client (loadConfig example_env)
          [''q'' \<mapsto> [''go''], ''limit'' \<mapsto> [''-5'']])
     = [(''documents'', ''go'', search_request (- 5))] \<and>
   \<not> 0 < Limit (search_request (- 5)) \<and>
   snd (search_endpoint example_client (loadConfig example_env)
          [''q'' \<mapsto> [''go''], ''limit'' \<mapsto> [''0'']])
     = [(''documents'', ''go'', search_request 0)] \<and>
   \<not> 0 < Limit (search_request 0)"
  by (simp add: search_endpoint_def gin_Query_def GetQuery_def parse_limit_def DefaultQuery_def
      Atoi_def ParseInt_def ParseUint_def is_digit_def performSearch_def loadConfig_def getEnv_def os_Getenv_def
      example_env_def example_client_def search_request_def Let_def)

text \<open>
  Claim C3, amended. The \<open>limit\<close> parameter is optional with default 20: for a request
  with a non-empty \<open>q\<close> exactly one search is performed, and its limit is 20 when
  \<open>limit\<close> is absent or is not accepted by \<open>strconv.Atoi\<close> (not an optionally signed
  decimal integer, or outside the 64-bit range); otherwise it is the parsed integer,
  passed on unchanged, which may be zero or negative.
\<close>

theorem limit_default_or_parsed:
  "(vs ''q'' = Some (q # rest) \<and> q \<noteq> [] \<longrightarrow>
      snd (search_endpoint client config vs) =
        [(IndexName config, q, search_request (parse_limit vs))] \<and>
      Limit (search_request (parse_limit vs)) = parse_limit vs) \<and>
   (va ''limit'' = None \<longrightarrow> parse_limit va = 20) \<and>
   (vb ''limit'' = Some (lb # rb) \<and> Atoi lb = Inl err \<longrightarrow> parse_limit vb = 20) \<and>
   (vc ''limit'' = Some (lc # rc) \<and> Atoi lc = Inr k \<longrightarrow>
      parse_limit vc = k \<and> - (2 ^ 63) \<le> k \<and> k < 2 ^ 63)"
proof -
  have call: "snd (search_endpoint client config vs) =
        [(IndexName config, q, search_request (parse_limit vs))] \<and>
      Limit (search_request (parse_limit vs)) = parse_limit vs"
    if "vs ''q'' = Some (q # rest)" "q \<noteq> []"
  proof -
    from that(1) have "gin_Query vs ''q'' = q"
      by (simp add: gin_Query_def GetQuery_def)
    from search_endpoint_query[OF this that(2), of client config]
    show ?thesis by (simp add: search_request_def)
  qed
  have absent: "parse_limit va = 20" if "va ''limit'' = None"
    using that
    by (simp add: parse_limit_def DefaultQuery_def GetQuery_def Atoi_def ParseInt_def ParseUint_def
        is_digit_def)
  have bad: "parse_limit vb = 20" if "vb ''limit'' = Some (lb # rb)" "Atoi lb = Inl err"
    using that by (simp add: parse_limit_def DefaultQuery_def GetQuery_def)
  have good: "parse_limit vc = k \<and> - (2 ^ 63) \<le> k \<and> k < 2 ^ 63"
    if "vc ''limit'' = Some (lc # rc)" "Atoi lc = Inr k"
    using that Atoi_range[OF that(2)]
    by (simp add: parse_limit_def DefaultQuery_def GetQuery_def)
  from call absent bad good show ?thesis by blast
qed

text \<open>The requests \<open>q=go\<close>, \<open>q=go&limit=abc\<close> and \<open>q=go&limit=7\<close>.\<close>

theorem limit_default_or_parsed_witness:
  "snd (search_endpoint example_client (loadConfig example_env) [''q'' \<mapsto> [''go'']]) =
     [(''documents'', ''go'', search_request 20)] \<and>
   parse_limit [''q'' \<mapsto> [''go'']] = 20 \<and>
   parse_limit [''q'' \<mapsto> [''go''], ''limit'' \<mapsto> [''abc'']] = 20 \<and>
   parse_limit [''q'' \<mapsto> [''go''], ''limit'' \<mapsto> [''7'']] = 7"
proof -
  have cfg: "IndexName (loadConfig example_env) = ''documents''"
    by (simp add: loadConfig_def getEnv_def os_Getenv_def example_env_def)
  have q: "[''q'' \<mapsto> [''go'']] ''q'' = Some (''go'' # []) \<and> ''go'' \<noteq> []"
    and absent: "[''q'' \<mapsto> [''go'']] ''limit'' = None"
    and bad: "[''q'' \<mapsto> [''go''], ''limit'' \<mapsto> [''abc'']] ''limit'' = Some (''abc'' # []) \<and>
              Atoi ''abc'' = Inl ErrSyntax"
    and good: "[''q'' \<mapsto> [''go''], ''limit'' \<mapsto> [''7'']] ''limit'' = Some (''7'' # []) \<and>
               Atoi ''7'' = Inr 7"
    by (simp_all add: Atoi_def ParseInt_def ParseUint_def is_digit_def)
  note main = limit_default_or_parsed [of "[''q'' \<mapsto> [''go'']]" "''go''" "[]"
      example_client "loadConfig example_env"
      "[''q'' \<mapsto> [''go'']]"
      "[''q'' \<mapsto> [''go''], ''limit'' \<mapsto> [''abc'']]" "''abc''" "[]" ErrSyntax
      "[''q'' \<mapsto> [''go''], ''limit'' \<mapsto> [''7'']]" "''7''" "[]" 7]
  from main absent have a: "parse_limit [''q'' \<mapsto> [''go'']] = 20" by blast
  from main bad have b: "parse_limit [''q'' \<mapsto> [''go''], ''limit'' \<mapsto> [''abc'']] = 20" by blast
  from main good have c: "parse_limit [''q'' \<mapsto> [''go''], ''limit'' \<mapsto> [''7'']] = 7" by blast
  from main q have
    "snd (search_endpoint example_client (loadConfig example_env) [''q'' \<mapsto> [''go'']]) =
       [(IndexName (loadConfig example_env), ''go'',
         search_request (parse_limit [''q'' \<mapsto> [''go'']]))]"
    by blast
  then show ?thesis unfolding cfg a using a b c by simp
qed

section \<open>Properties of the crawl pipeline\<close>

subsection \<open>URL Frontier\<close>

lemma offer_noop:
  "url e \<in> url ` set (pending F) \<or> url e \<in> VisitedSet F \<Longrightarrow> offer maxDepth e F = F"
  by (simp add: offer_def)

lemma offer_visited: "VisitedSet (offer maxDepth e F) = VisitedSet F"
  by (simp add: offer_def)

lemma offer_inv: "frontier_inv F \<Longrightarrow> frontier_inv (offer maxDepth e F)"
  by (auto simp: offer_def frontier_inv_def)

lemma bfs_first_in: "bfs_first b es \<in> set (b # es)"
  by (induction es arbitrary: b) (auto split: if_splits)

lemma take_next_None: "take_next F = (None, F') \<Longrightarrow> F' = F"
  by (auto simp: take_next_def Let_def split: list.splits)

lemma take_next_Some:
  "take_next F = (Some x, F') \<Longrightarrow>
   x \<in> set (pending F) \<and> pending F' = remove1 x (pending F) \<and>
   VisitedSet F' = insert (url x) (VisitedSet F)"
proof -
  assume t: "take_next F = (Some x, F')"
  then obtain e es where p: "pending F = e # es"
    by (cases "pending F") (auto simp: take_next_def)
  with t have x: "x = bfs_first e es"
    and F': "F' = F \<lparr> pending := remove1 x (pending F),
                       VisitedSet := insert (url x) (VisitedSet F) \<rparr>"
    by (auto simp: take_next_def Let_def)
  from bfs_first_in[of e es] x p have "x \<in> set (pending F)" by simp
  with F' show ?thesis by simp
qed

lemma distinct_map_remove1:
  "distinct (map f xs) \<Longrightarrow> x \<in> set xs \<Longrightarrow> f x \<notin> f ` set (remove1 x xs)"
proof (induction xs)
  case Nil
  then show ?case by simp
next
  case (Cons a xs)
  show ?case
  proof (cases "x = a")
    case True
    with Cons.prems(1) show ?thesis by simp
  next
    case False
    with Cons.prems have "x \<in> set xs" "distinct (map f xs)" "f a \<notin> f ` set xs"
      by simp_all
    moreover from this have "f x \<noteq> f a" by (metis imageI)
    ultimately show ?thesis using Cons.IH False by simp
  qed
qed

lemma take_next_inv:
  assumes "frontier_inv F" "take_next F = (r, F')"
  shows "frontier_inv F'"
proof (cases r)
  case None
  with assms take_next_None[of F F'] show ?thesis by simp
next
  case (Some x)
  with assms(2) have x: "x \<in> set (pending F)" "pending F' = remove1 x (pending F)"
    "VisitedSet F' = insert (url x) (VisitedSet F)"
    using take_next_Some by blast+
  from assms(1) have d: "distinct (map url (pending F))"
    and v: "url ` set (pending F) \<inter> VisitedSet F = {}"
    by (simp_all add: frontier_inv_def)
  have "distinct (map url (remove1 x (pending F)))"
    using d by (simp add: distinct_map distinct_remove1 inj_on_def)
  moreover have "url x \<notin> url ` set (remove1 x (pending F))"
    using d x(1) by (rule distinct_map_remove1)
  moreover have "url ` set (remove1 x (pending F)) \<inter> VisitedSet F = {}"
    using v set_remove1_subset[of x "pending F"] by blast
  ultimately show ?thesis
    using x by (auto simp: frontier_inv_def)
qed

lemma run_ops_inv:
  "frontier_inv F \<Longrightarrow> run_ops maxDepth ops F = (taken, F') \<Longrightarrow>
   distinct (map url taken) \<and> url ` set taken \<inter> VisitedSet F = {} \<and>
   frontier_inv F' \<and> VisitedSet F \<subseteq> VisitedSet F' \<and> url ` set taken \<subseteq> VisitedSet F'"
proof (induction ops arbitrary: F taken F')
  case Nil
  then show ?case by simp
next
  case (Cons op ops)
  show ?case
  proof (cases op)
    case (Offer e)
    with Cons.prems(2) have run: "run_ops maxDepth ops (offer maxDepth e F) = (taken, F')"
      by simp
    from Cons.IH[OF offer_inv[OF Cons.prems(1)] run] show ?thesis
      by (simp add: offer_visited)
  next
    case Take
    obtain r F1 where t: "take_next F = (r, F1)" by (cases "take_next F")
    have inv1: "frontier_inv F1" using Cons.prems(1) t by (rule take_next_inv)
    show ?thesis
    proof (cases r)
      case None
      with t take_next_None[of F F1] have "F1 = F" by simp
      with Take None t Cons.prems(2) have "run_ops maxDepth ops F = (taken, F')" by simp
      from Cons.IH[OF Cons.prems(1) this] show ?thesis .
    next
      case (Some x)
      obtain rest F2 where run: "run_ops maxDepth ops F1 = (rest, F2)"
        by (cases "run_ops maxDepth ops F1")
      with Take Some t Cons.prems(2) have tk: "taken = x # rest" and F2: "F2 = F'"
        by simp_all
      from t Some have x: "x \<in> set (pending F)" "VisitedSet F1 = insert (url x) (VisitedSet F)"
        using take_next_Some by blast+
      from Cons.prems(1) x(1) have fresh: "url x \<notin> VisitedSet F"
        by (auto simp: frontier_inv_def)
      from Cons.IH[OF inv1 run] have ih: "distinct (map url rest)"
        "url ` set rest \<inter> VisitedSet F1 = {}" "frontier_inv F2"
        "VisitedSet F1 \<subseteq> VisitedSet F2" "url ` set rest \<subseteq> VisitedSet F2"
        by simp_all
      from ih(2) x(2) have "url x \<notin> url ` set rest" "url ` set rest \<inter> VisitedSet F = {}"
        by auto
      with ih x(2) fresh tk F2 show ?thesis by auto
    qed
  qed
qed

lemma empty_frontier_inv: "frontier_inv empty_frontier"
  by (simp add: frontier_inv_def empty_frontier_def)

lemma crawl_Suc: "crawl cfg w (Suc k) = step cfg w (crawl cfg w k)"
  by (simp add: crawl_def)

lemma run_ops_Take_snd:
  "snd (run_ops maxDepth (Take # ops) F) = snd (run_ops maxDepth ops (snd (take_next F)))"
  by (simp add: case_prod_unfold split: option.split)

lemma run_ops_append:
  "snd (run_ops maxDepth (ops1 @ ops2) F) =
     snd (run_ops maxDepth ops2 (snd (run_ops maxDepth ops1 F)))"
proof (induction ops1 arbitrary: F)
  case Nil
  show ?case by simp
next
  case (Cons op ops1)
  show ?case
  proof (cases op)
    case (Offer e)
    then show ?thesis by (simp add: Cons.IH)
  next
    case Take
    have "snd (run_ops maxDepth (Take # (ops1 @ ops2)) F) =
        snd (run_ops maxDepth ops2 (snd (run_ops maxDepth (Take # ops1) F)))"
      unfolding run_ops_Take_snd by (rule Cons.IH)
    with Take show ?thesis by simp
  qed
qed

lemma fold_offer_run_ops:
  "fold (offer maxDepth) es F = snd (run_ops maxDepth (map Offer es) F)"
  by (induction es arbitrary: F) simp_all

lemma step_frontier_ops:
  "\<exists>ops. frontier (step cfg w s) = snd (run_ops (MAX_DEPTH cfg) ops (frontier s))"
proof (cases "phase_of s")
  case Idle
  then have "frontier (step cfg w s) =
      snd (run_ops (MAX_DEPTH cfg) (map Offer (map seed_entry (SEED_URLS cfg))) (frontier s))"
    by (simp add: step_def fold_offer_run_ops)
  then show ?thesis by blast
next
  case Running
  obtain r F where t: "take_next (frontier s) = (r, F)"
    by (cases "take_next (frontier s)")
  show ?thesis
  proof (cases r)
    case None
    with t Running have "frontier (step cfg w s) = snd (run_ops (MAX_DEPTH cfg) [] (frontier s))"
      by (simp add: step_def)
    then show ?thesis by blast
  next
    case (Some entry)
    have plain: "F = snd (run_ops (MAX_DEPTH cfg) [Take] (frontier s))"
      using t Some by simp
    have offered: "fold (offer (MAX_DEPTH cfg)) (map (link_entry entry) links) F =
        snd (run_ops (MAX_DEPTH cfg) (Take # map Offer (map (link_entry entry) links)) (frontier s))"
      for links
      using t Some unfolding run_ops_Take_snd by (simp add: fold_offer_run_ops)
    have "frontier (step cfg w s) = F \<or>
        (\<exists>links. frontier (step cfg w s) =
           fold (offer (MAX_DEPTH cfg)) (map (link_entry entry) links) F)"
      using t Some Running
      by (auto simp: step_def Let_def split: option.splits prod.splits bool.splits)
    with plain offered show ?thesis by metis
  qed
next
  case Draining
  then have "frontier (step cfg w s) = snd (run_ops (MAX_DEPTH cfg) [] (frontier s))"
    by (simp add: step_def)
  then show ?thesis by blast
next
  case Done
  then have "frontier (step cfg w s) = snd (run_ops (MAX_DEPTH cfg) [] (frontier s))"
    by (simp add: step_def)
  then show ?thesis by blast
qed

lemma crawl_frontier_ops:
  "\<exists>ops. frontier (crawl cfg w k) = snd (run_ops (MAX_DEPTH cfg) ops empty_frontier)"
proof (induction k)
  case 0
  have "frontier (crawl cfg w 0) = snd (run_ops (MAX_DEPTH cfg) [] empty_frontier)"
    by (simp add: crawl_def initial_state_def)
  then show ?case by blast
next
  case (Suc k)
  then obtain ops1 where
    a: "frontier (crawl cfg w k) = snd (run_ops (MAX_DEPTH cfg) ops1 empty_frontier)"
    by blast
  obtain ops2 where
    b: "frontier (crawl cfg w (Suc k)) = snd (run_ops (MAX_DEPTH cfg) ops2 (frontier (crawl cfg w k)))"
    using step_frontier_ops[of cfg w "crawl cfg w k"] by (auto simp: crawl_Suc)
  from a b have "frontier (crawl cfg w (Suc k)) =
      snd (run_ops (MAX_DEPTH cfg) (ops1 @ ops2) empty_frontier)"
    by (simp add: run_ops_append)
  then show ?case by blast
qed

text \<open>
  Claim C7. In any run of the Frontier (any sequence of \<open>offer\<close> and \<open>take\<close> calls
  starting from the empty Frontier) the entries returned by \<open>take\<close> have pairwise
  distinct normalized URLs; a \<open>take\<close> puts the URL of the entry it returns into the
  VisitedSet, before and whatever the outcome of the fetch; a URL that is in the
  VisitedSet at some point of a run is not returned by any later \<open>take\<close>; and \<open>offer\<close>
  of an entry whose URL is already in the Frontier or the VisitedSet leaves the state
  unchanged. The Frontier of every state of a crawl run is the result of such a sequence
  of calls.
\<close>

theorem url_dequeued_at_most_once:
  "distinct (map url (fst (run_ops maxDepth ops empty_frontier))) \<and>
   (u \<in> VisitedSet (snd (run_ops maxDepth before empty_frontier)) \<longrightarrow>
      u \<notin> url ` set (fst (run_ops maxDepth later (snd (run_ops maxDepth before empty_frontier))))) \<and>
   (take_next F = (Some x, F') \<longrightarrow> url x \<in> VisitedSet F') \<and>
   (url e \<in> url ` set (pending G) \<or> url e \<in> VisitedSet G \<longrightarrow> offer maxDepth e G = G) \<and>
   (\<exists>calls. frontier (crawl cfg w k) = snd (run_ops (MAX_DEPTH cfg) calls empty_frontier))"
proof -
  have once: "distinct (map url (fst (run_ops maxDepth ops empty_frontier)))"
    using run_ops_inv[OF empty_frontier_inv, of maxDepth ops]
    by (cases "run_ops maxDepth ops empty_frontier") simp
  have never: "u \<notin> url ` set (fst (run_ops maxDepth later (snd (run_ops maxDepth before empty_frontier))))"
    if "u \<in> VisitedSet (snd (run_ops maxDepth before empty_frontier))"
  proof -
    obtain t1 F1 where r1: "run_ops maxDepth before empty_frontier = (t1, F1)"
      by (cases "run_ops maxDepth before empty_frontier")
    obtain t2 F2 where r2: "run_ops maxDepth later F1 = (t2, F2)"
      by (cases "run_ops maxDepth later F1")
    from run_ops_inv[OF empty_frontier_inv r1] have "frontier_inv F1" by simp
    from run_ops_inv[OF this r2] have "url ` set t2 \<inter> VisitedSet F1 = {}" by simp
    with that r1 r2 show ?thesis by auto
  qed
  have visited: "url x \<in> VisitedSet F'" if "take_next F = (Some x, F')"
    using take_next_Some[OF that] by simp
  have noop: "offer maxDepth e G = G"
    if "url e \<in> url ` set (pending G) \<or> url e \<in> VisitedSet G"
    using that by (rule offer_noop)
  from once never visited noop crawl_frontier_ops[of cfg w k] show ?thesis by blast
qed
text \<open>Entry \<open>a\<close> is offered twice, taken, offered again after the take, then \<open>b\<close> is
  offered and two more entries are taken: \<open>a\<close> comes out once.\<close>

theorem url_dequeued_at_most_once_witness:
  "distinct (map url (fst (run_ops 3
       [Offer entry_a, Offer entry_a_again, Take, Offer entry_a_again, Offer entry_b, Take, Take]
       empty_frontier))) \<and>
   fst (run_ops 3
       [Offer entry_a, Offer entry_a_again, Take, Offer entry_a_again, Offer entry_b, Take, Take]
       empty_frontier) = [entry_a, entry_b] \<and>
   ''http://a.test/'' \<in> VisitedSet (snd (run_ops 3 [Offer entry_a, Take] empty_frontier)) \<and>
   ''http://a.test/'' \<notin> url ` set (fst (run_ops 3 [Offer entry_a_again, Offer entry_b, Take, Take]
       (snd (run_ops 3 [Offer entry_a, Take] empty_frontier)))) \<and>
   take_next (offer 3 entry_a empty_frontier) =
     (Some entry_a, \<lparr> pending = [], VisitedSet = {''http://a.test/''} \<rparr>) \<and>
   url entry_a \<in> VisitedSet \<lparr> pending = [], VisitedSet = {''http://a.test/''} \<rparr> \<and>
   offer 3 entry_a_again (offer 3 entry_a empty_frontier) = offer 3 entry_a empty_frontier \<and>
   (\<exists>calls. frontier (crawl three_pages mirror_web 5) =
      snd (run_ops (MAX_DEPTH three_pages) calls empty_frontier))"
proof -
  have visited: "''http://a.test/'' \<in> VisitedSet (snd (run_ops 3 [Offer entry_a, Take] empty_frontier))"
    by (simp add: offer_def take_next_def empty_frontier_def entry_a_def)
  have took: "take_next (offer 3 entry_a empty_frontier) =
      (Some entry_a, \<lparr> pending = [], VisitedSet = {''http://a.test/''} \<rparr>)"
    by (simp add: offer_def take_next_def empty_frontier_def entry_a_def)
  have present: "url entry_a_again \<in> url ` set (pending (offer 3 entry_a empty_frontier)) \<or>
      url entry_a_again \<in> VisitedSet (offer 3 entry_a empty_frontier)"
    by (simp add: offer_def empty_frontier_def entry_a_def entry_a_again_def)
  have run: "fst (run_ops 3
       [Offer entry_a, Offer entry_a_again, Take, Offer entry_a_again, Offer entry_b, Take, Take]
       empty_frontier) = [entry_a, entry_b]"
    by (simp add: offer_def take_next_def empty_frontier_def entry_a_def entry_a_again_def
        entry_b_def)
  note main = url_dequeued_at_most_once [of 3
      "[Offer entry_a, Offer entry_a_again, Take, Offer entry_a_again, Offer entry_b, Take, Take]"
      "''http://a.test/''" "[Offer entry_a, Take]"
      "[Offer entry_a_again, Offer entry_b, Take, Take]"
      "offer 3 entry_a empty_frontier" entry_a
      "\<lparr> pending = [], VisitedSet = {''http://a.test/''} \<rparr>"
      entry_a_again "offer 3 entry_a empty_frontier" three_pages mirror_web 5]
  from main have crawled:
    "\<exists>calls. frontier (crawl three_pages mirror_web 5) =
       snd (run_ops (MAX_DEPTH three_pages) calls empty_frontier)"
    by blast
  from main have once: "distinct (map url (fst (run_ops 3
       [Offer entry_a, Offer entry_a_again, Take, Offer entry_a_again, Offer entry_b, Take, Take]
       empty_frontier)))"
    by blast
  from main visited have never:
    "''http://a.test/'' \<notin> url ` set (fst (run_ops 3 [Offer entry_a_again, Offer entry_b, Take, Take]
       (snd (run_ops 3 [Offer entry_a, Take] empty_frontier))))"
    by blast
  from main took have entered:
    "url entry_a \<in> VisitedSet \<lparr> pending = [], VisitedSet = {''http://a.test/''} \<rparr>"
    by blast
  from main present have noop:
    "offer 3 entry_a_again (offer 3 entry_a empty_frontier) = offer 3 entry_a empty_frontier"
    by blast
  show ?thesis
    by (intro conjI) (rule once run visited never took entered noop crawled)+
qed

subsection \<open>Deduplicator\<close>

lemma shouldIndex_cases:
  "shouldIndex fp now d reg =
     (if hash_of fp d \<in> dom reg then (False, reg) else (True, reg(hash_of fp d \<mapsto> now)))"
  by (simp add: shouldIndex_def hash_of_def)

lemma shouldIndex_all_answers:
  "shouldIndex_all fp ds reg = (answers, reg') \<Longrightarrow>
   length answers = length ds \<and>
   dom reg' = dom reg \<union> hash_of fp ` snd ` set ds \<and>
   (\<forall>j < length ds.
      answers ! j =
        (hash_of fp (snd (ds ! j)) \<notin> dom reg \<and>
         (\<forall>i < j. hash_of fp (snd (ds ! i)) \<noteq> hash_of fp (snd (ds ! j)))))"
proof (induction ds arbitrary: reg answers reg')
  case Nil
  then show ?case by simp
next
  case (Cons p ds)
  obtain now d where p: "p = (now, d)" by (cases p)
  obtain a reg1 where one: "shouldIndex fp now d reg = (a, reg1)"
    by (cases "shouldIndex fp now d reg")
  obtain rest reg2 where run: "shouldIndex_all fp ds reg1 = (rest, reg2)"
    by (cases "shouldIndex_all fp ds reg1")
  from Cons.prems p one run have ans: "answers = a # rest" and reg': "reg' = reg2"
    by simp_all
  from one have a: "a = (hash_of fp d \<notin> dom reg)"
    and d1: "dom reg1 = insert (hash_of fp d) (dom reg)"
    by (auto simp: shouldIndex_cases split: if_splits)
  from Cons.IH[OF run] have ih: "length rest = length ds"
    "dom reg2 = dom reg1 \<union> hash_of fp ` snd ` set ds"
    "\<forall>j < length ds. rest ! j =
        (hash_of fp (snd (ds ! j)) \<notin> dom reg1 \<and>
         (\<forall>i < j. hash_of fp (snd (ds ! i)) \<noteq> hash_of fp (snd (ds ! j))))"
    by simp_all
  have "answers ! j =
        (hash_of fp (snd ((p # ds) ! j)) \<notin> dom reg \<and>
         (\<forall>i < j. hash_of fp (snd ((p # ds) ! i)) \<noteq> hash_of fp (snd ((p # ds) ! j))))"
    if "j < length (p # ds)" for j
  proof (cases j)
    case 0
    with ans a p show ?thesis by simp
  next
    case (Suc j')
    with that have "j' < length ds" by simp
    with ih(3) have "rest ! j' =
        (hash_of fp (snd (ds ! j')) \<notin> dom reg1 \<and>
         (\<forall>i < j'. hash_of fp (snd (ds ! i)) \<noteq> hash_of fp (snd (ds ! j'))))"
      by blast
    with Suc ans p d1 show ?thesis
      by (auto simp: All_less_Suc2)
  qed
  with ans reg' ih(1,2) d1 p show ?case by auto
qed

lemma step_dedup_inv: "dedup_inv w s \<Longrightarrow> dedup_inv w (step cfg w s)"
  by (auto simp: step_def Let_def dedup_inv_def shouldIndex_cases
      split: phase.splits prod.splits option.splits bool.splits if_splits)

lemma crawl_dedup_inv: "dedup_inv w (crawl cfg w k)"
proof (induction k)
  case 0
  show ?case by (simp add: crawl_def dedup_inv_def initial_state_def)
next
  case (Suc k)
  then show ?case by (simp add: crawl_Suc step_dedup_inv)
qed

lemma step_met_None:
  "document_met cfg w s = None \<Longrightarrow>
   submitted (step cfg w s) = submitted s \<and> registry (step cfg w s) = registry s"
  by (auto simp: step_def document_met_def Let_def
      split: phase.splits prod.splits option.splits if_splits)

lemma step_met_Some:
  "document_met cfg w s = Some (t, d) \<Longrightarrow>
   submitted (step cfg w s) =
     (if fst (shouldIndex (fingerprint w) t d (registry s)) then submitted s @ [d]
      else submitted s) \<and>
   registry (step cfg w s) = snd (shouldIndex (fingerprint w) t d (registry s))"
  by (auto simp: step_def document_met_def Let_def
      split: phase.splits prod.splits option.splits if_splits bool.splits)

lemma shouldIndex_all_length:
  "length (fst (shouldIndex_all fp ds reg)) = length ds"
  using shouldIndex_all_answers[of fp ds reg]
  by (cases "shouldIndex_all fp ds reg") simp

lemma shouldIndex_all_snoc:
  "shouldIndex_all fp (ds @ [(t, d)]) reg =
     (fst (shouldIndex_all fp ds reg) @ [fst (shouldIndex fp t d (snd (shouldIndex_all fp ds reg)))],
      snd (shouldIndex fp t d (snd (shouldIndex_all fp ds reg))))"
  by (induction ds arbitrary: reg) (auto split: prod.splits)

lemma first_occurrences_snoc:
  "first_occurrences fp (ds @ [(t, d)]) =
     first_occurrences fp ds @
     (if hash_of fp d \<in> hash_of fp ` snd ` set ds then [] else [d])"
proof -
  let ?n = "length ds"
  let ?P = "\<lambda>xs j. \<forall>i < j. hash_of fp (snd (xs ! i)) \<noteq> hash_of fp (snd (xs ! j))"
  have old: "filter (?P (ds @ [(t, d)])) [0 ..< ?n] = filter (?P ds) [0 ..< ?n]"
    by (rule filter_cong) (auto simp: nth_append)
  have vals: "map (\<lambda>j. snd ((ds @ [(t, d)]) ! j)) (filter (?P ds) [0 ..< ?n]) =
      map (\<lambda>j. snd (ds ! j)) (filter (?P ds) [0 ..< ?n])"
    by (rule map_cong) (auto simp: nth_append)
  have new: "?P (ds @ [(t, d)]) ?n \<longleftrightarrow> hash_of fp d \<notin> hash_of fp ` snd ` set ds"
  proof -
    have "?P (ds @ [(t, d)]) ?n \<longleftrightarrow> (\<forall>i < ?n. hash_of fp (snd (ds ! i)) \<noteq> hash_of fp d)"
      by (simp add: nth_append)
    also have "\<dots> \<longleftrightarrow> (\<forall>x \<in> set ds. hash_of fp (snd x) \<noteq> hash_of fp d)"
      by (simp add: all_set_conv_all_nth)
    also have "\<dots> \<longleftrightarrow> hash_of fp d \<notin> hash_of fp ` snd ` set ds"
    proof
      assume "\<forall>x \<in> set ds. hash_of fp (snd x) \<noteq> hash_of fp d"
      then show "hash_of fp d \<notin> hash_of fp ` snd ` set ds"
        by (metis (no_types, lifting) imageE)
    next
      assume "hash_of fp d \<notin> hash_of fp ` snd ` set ds"
      then show "\<forall>x \<in> set ds. hash_of fp (snd x) \<noteq> hash_of fp d"
        by (metis imageI)
    qed
    finally show ?thesis .
  qed
  show ?thesis
    unfolding first_occurrences_def
    using old vals new by (simp add: nth_append)
qed

lemma shouldIndex_dom:
  "dom (snd (shouldIndex fp t d reg)) = insert (hash_of fp d) (dom reg)"
  by (auto simp: shouldIndex_cases)

lemma crawl_registry_dom:
  "dom (registry (crawl cfg w k)) = hash_of (fingerprint w) ` snd ` set (encountered cfg w k)"
proof (induction k)
  case 0
  show ?case by (simp add: crawl_def initial_state_def)
next
  case (Suc k)
  show ?case
  proof (cases "document_met cfg w (crawl cfg w k)")
    case None
    with Suc step_met_None[OF None] show ?thesis by (simp add: crawl_Suc)
  next
    case (Some p)
    obtain t d where p: "p = (t, d)" by (cases p)
    from Some p step_met_Some[of cfg w "crawl cfg w k" t d]
    have "registry (crawl cfg w (Suc k)) =
        snd (shouldIndex (fingerprint w) t d (registry (crawl cfg w k)))"
      by (simp add: crawl_Suc)
    with Suc Some p show ?thesis
      by (simp add: shouldIndex_dom)
  qed
qed

lemma crawl_submits_first_occurrences:
  "submitted (crawl cfg w k) = first_occurrences (fingerprint w) (encountered cfg w k)"
proof (induction k)
  case 0
  show ?case by (simp add: crawl_def initial_state_def first_occurrences_def)
next
  case (Suc k)
  show ?case
  proof (cases "document_met cfg w (crawl cfg w k)")
    case None
    with Suc step_met_None[OF None] show ?thesis by (simp add: crawl_Suc)
  next
    case (Some p)
    obtain t d where p: "p = (t, d)" by (cases p)
    from Some p step_met_Some[of cfg w "crawl cfg w k" t d]
    have "submitted (crawl cfg w (Suc k)) =
        (if fst (shouldIndex (fingerprint w) t d (registry (crawl cfg w k)))
         then submitted (crawl cfg w k) @ [d] else submitted (crawl cfg w k))"
      by (simp add: crawl_Suc)
    with Suc Some p crawl_registry_dom[of cfg w k] show ?thesis
      by (simp add: first_occurrences_snoc shouldIndex_cases)
  qed
qed

lemma crawl_submits_answered_true:
  "registry (crawl cfg w k) =
     snd (shouldIndex_all (fingerprint w) (encountered cfg w k) Map.empty) \<and>
   submitted (crawl cfg w k) =
     map (snd \<circ> fst)
       (filter snd (zip (encountered cfg w k)
          (fst (shouldIndex_all (fingerprint w) (encountered cfg w k) Map.empty))))"
proof (induction k)
  case 0
  show ?case by (simp add: crawl_def initial_state_def)
next
  case (Suc k)
  show ?case
  proof (cases "document_met cfg w (crawl cfg w k)")
    case None
    with Suc step_met_None[OF None] show ?thesis by (simp add: crawl_Suc)
  next
    case (Some p)
    obtain t d where p: "p = (t, d)" by (cases p)
    from Some p step_met_Some[of cfg w "crawl cfg w k" t d]
    have "submitted (crawl cfg w (Suc k)) =
        (if fst (shouldIndex (fingerprint w) t d (registry (crawl cfg w k)))
         then submitted (crawl cfg w k) @ [d] else submitted (crawl cfg w k))"
      and "registry (crawl cfg w (Suc k)) =
        snd (shouldIndex (fingerprint w) t d (registry (crawl cfg w k)))"
      by (simp_all add: crawl_Suc)
    with Suc Some p show ?thesis
      by (simp add: shouldIndex_all_snoc shouldIndex_all_length)
  qed
qed

lemma three_pages_started:
  "crawl three_pages mirror_web 1 =
     \<lparr> phase_of = Running,
       frontier = \<lparr> pending = [seed_entry ''http://a.test/''], VisitedSet = {} \<rparr>,
       registry = Map.empty, submitted = [],
       flushed = False, fetched = 0, indexed = 0, skipped = 0, clock = 0 \<rparr>"
  by (simp add: crawl_def step_def initial_state_def three_pages_def empty_frontier_def
      offer_def seed_entry_def)

lemma three_pages_fetched_one:
  "crawl three_pages mirror_web 2 =
     \<lparr> phase_of = Running,
       frontier = \<lparr> pending = [link_entry (seed_entry ''http://a.test/'') ''http://b.test/''],
                    VisitedSet = {''http://a.test/''} \<rparr>,
       registry = [''same'' \<mapsto> 0],
       submitted = [page ''http://a.test/'' ''same''],
       flushed = False, fetched = 1, indexed = 1, skipped = 0, clock = 1 \<rparr>"
proof -
  have "crawl three_pages mirror_web 2 = step three_pages mirror_web (crawl three_pages mirror_web 1)"
    by (simp add: crawl_def numeral_2_eq_2)
  then show ?thesis
    unfolding three_pages_started
    by (simp add: step_def three_pages_def mirror_web_def offer_def take_next_def seed_entry_def
        link_entry_def shouldIndex_def page_def identity_hash_def Let_def)
qed

lemma three_pages_met:
  "document_met three_pages mirror_web (crawl three_pages mirror_web 0) = None"
  "document_met three_pages mirror_web (crawl three_pages mirror_web 1) =
     Some (0, page ''http://a.test/'' ''same'')"
  "document_met three_pages mirror_web (crawl three_pages mirror_web 2) =
     Some (1, page ''http://b.test/'' ''same'')"
proof -
  show "document_met three_pages mirror_web (crawl three_pages mirror_web 0) = None"
    by (simp add: crawl_def document_met_def initial_state_def)
  show "document_met three_pages mirror_web (crawl three_pages mirror_web 1) =
     Some (0, page ''http://a.test/'' ''same'')"
    unfolding three_pages_started
    by (simp add: document_met_def three_pages_def mirror_web_def take_next_def seed_entry_def
        Let_def)
  show "document_met three_pages mirror_web (crawl three_pages mirror_web 2) =
     Some (1, page ''http://b.test/'' ''same'')"
    unfolding three_pages_fetched_one
    by (simp add: document_met_def three_pages_def mirror_web_def take_next_def seed_entry_def
        link_entry_def Let_def)
qed

lemma three_pages_encountered:
  "encountered three_pages mirror_web 3 =
     [(0, page ''http://a.test/'' ''same''), (1, page ''http://b.test/'' ''same'')]"
proof -
  have "encountered three_pages mirror_web 3 =
      (case document_met three_pages mirror_web (crawl three_pages mirror_web 0) of
         None \<Rightarrow> [] | Some p \<Rightarrow> [p]) @
      (case document_met three_pages mirror_web (crawl three_pages mirror_web 1) of
         None \<Rightarrow> [] | Some p \<Rightarrow> [p]) @
      (case document_met three_pages mirror_web (crawl three_pages mirror_web 2) of
         None \<Rightarrow> [] | Some p \<Rightarrow> [p])"
    by (simp add: eval_nat_numeral)
  then show ?thesis
    unfolding three_pages_met by simp
qed

lemma same_text_first_occurrence:
  "first_occurrences identity_hash
     [(0, page ''http://a.test/'' ''same''), (1, page ''http://b.test/'' ''same'')] =
   [page ''http://a.test/'' ''same'']"
proof -
  have "first_occurrences identity_hash ([] @ [(0, page ''http://a.test/'' ''same'')]) =
      [page ''http://a.test/'' ''same'']"
    unfolding first_occurrences_snoc by (simp add: first_occurrences_def)
  then have one: "first_occurrences identity_hash [(0, page ''http://a.test/'' ''same'')] =
      [page ''http://a.test/'' ''same'']"
    by simp
  have "first_occurrences identity_hash
      ([(0, page ''http://a.test/'' ''same'')] @ [(1, page ''http://b.test/'' ''same'')]) =
      [page ''http://a.test/'' ''same'']"
    unfolding first_occurrences_snoc one
    by (simp add: hash_of_def page_def identity_hash_def)
  then show ?thesis by simp
qed

text \<open>
  Claim C8. Within one crawl run (the registry starts empty) the Deduplicator answers
  true for a document exactly when no earlier document of the run has the same content
  hash: true for the first document of each hash, false for every later one. An answer
  of true inserts the hash into the registry with the current timestamp; an answer of
  false leaves the registry unchanged. A transition of the orchestrator that passes a
  document to the Deduplicator submits it to the Index Sink when the answer is true and
  submits nothing when the answer is false, and a transition that passes no document
  submits nothing. So in every state of a crawl run the documents submitted to the
  Index Sink are exactly the documents encountered so far for which the Deduplicator
  answered true, which are exactly the first encountered document of each content hash,
  in the order of the encounters; their content hashes are pairwise distinct.
\<close>

theorem first_of_each_hash_is_indexed:
  "(shouldIndex_all fp ds Map.empty = (answers, reg') \<longrightarrow>
      length answers = length ds \<and>
      (\<forall>j < length ds.
         answers ! j = (\<forall>i < j. hash_of fp (snd (ds ! i)) \<noteq> hash_of fp (snd (ds ! j))))) \<and>
   (hash_of fp d \<notin> dom reg \<longrightarrow> shouldIndex fp now d reg = (True, reg(hash_of fp d \<mapsto> now))) \<and>
   (hash_of fp d2 \<in> dom reg2 \<longrightarrow> shouldIndex fp now2 d2 reg2 = (False, reg2)) \<and>
   distinct (map (hash_of (fingerprint w)) (submitted (crawl cfg w k))) \<and>
   (document_met cfg w s = Some (tm, dm) \<longrightarrow>
      submitted (step cfg w s) =
        (if fst (shouldIndex (fingerprint w) tm dm (registry s)) then submitted s @ [dm]
         else submitted s) \<and>
      registry (step cfg w s) = snd (shouldIndex (fingerprint w) tm dm (registry s))) \<and>
   (document_met cfg w s0 = None \<longrightarrow>
      submitted (step cfg w s0) = submitted s0 \<and> registry (step cfg w s0) = registry s0) \<and>
   submitted (crawl cfg w k) =
     map (snd \<circ> fst)
       (filter snd (zip (encountered cfg w k)
          (fst (shouldIndex_all (fingerprint w) (encountered cfg w k) Map.empty)))) \<and>
   submitted (crawl cfg w k) = first_occurrences (fingerprint w) (encountered cfg w k)"
proof -
  have run: "length answers = length ds \<and>
      (\<forall>j < length ds.
         answers ! j = (\<forall>i < j. hash_of fp (snd (ds ! i)) \<noteq> hash_of fp (snd (ds ! j))))"
    if "shouldIndex_all fp ds Map.empty = (answers, reg')"
    using shouldIndex_all_answers[OF that] by simp
  have fresh: "shouldIndex fp now d reg = (True, reg(hash_of fp d \<mapsto> now))"
    if "hash_of fp d \<notin> dom reg"
    using that by (simp add: shouldIndex_cases)
  have seen: "shouldIndex fp now2 d2 reg2 = (False, reg2)" if "hash_of fp d2 \<in> dom reg2"
    using that by (simp add: shouldIndex_cases)
  have sink: "distinct (map (hash_of (fingerprint w)) (submitted (crawl cfg w k)))"
    using crawl_dedup_inv[of w cfg k] by (simp add: dedup_inv_def)
  have passed: "submitted (step cfg w s) =
        (if fst (shouldIndex (fingerprint w) tm dm (registry s)) then submitted s @ [dm]
         else submitted s) \<and>
      registry (step cfg w s) = snd (shouldIndex (fingerprint w) tm dm (registry s))"
    if "document_met cfg w s = Some (tm, dm)"
    using that by (rule step_met_Some)
  have idle: "submitted (step cfg w s0) = submitted s0 \<and> registry (step cfg w s0) = registry s0"
    if "document_met cfg w s0 = None"
    using that by (rule step_met_None)
  have answered: "submitted (crawl cfg w k) =
     map (snd \<circ> fst)
       (filter snd (zip (encountered cfg w k)
          (fst (shouldIndex_all (fingerprint w) (encountered cfg w k) Map.empty))))"
    using crawl_submits_answered_true[of cfg w k] by simp
  have firsts: "submitted (crawl cfg w k) = first_occurrences (fingerprint w) (encountered cfg w k)"
    by (rule crawl_submits_first_occurrences)
  from run fresh seen sink passed idle answered firsts show ?thesis by blast
qed

text \<open>Three documents, the third with the text of the first: the answers are true,
  true, false. In the crawl of the example web, whose pages all have the same text, two
  pages are encountered; the transition that meets the second one submits nothing, and
  only the first page is in the Index Sink.\<close>

theorem first_of_each_hash_is_indexed_witness:
  "shouldIndex_all identity_hash example_docs Map.empty =
     ([True, True, False], [''x'' \<mapsto> 1, ''y'' \<mapsto> 2]) \<and>
   [True, True, False] ! 0 \<and> [True, True, False] ! 1 \<and> \<not> [True, True, False] ! 2 \<and>
   shouldIndex identity_hash 1 (page ''http://a.test/'' ''x'') Map.empty = (True, [''x'' \<mapsto> 1]) \<and>
   shouldIndex identity_hash 3 (page ''http://c.test/'' ''x'') [''x'' \<mapsto> 1]
     = (False, [''x'' \<mapsto> 1]) \<and>
   distinct (map (hash_of (fingerprint mirror_web)) (submitted (crawl three_pages mirror_web 3))) \<and>
   encountered three_pages mirror_web 3 =
     [(0, page ''http://a.test/'' ''same''), (1, page ''http://b.test/'' ''same'')] \<and>
   submitted (crawl three_pages mirror_web 2) = [page ''http://a.test/'' ''same''] \<and>
   submitted (step three_pages mirror_web (crawl three_pages mirror_web 2)) =
     [page ''http://a.test/'' ''same''] \<and>
   submitted (step three_pages mirror_web (crawl three_pages mirror_web 0)) = [] \<and>
   submitted (crawl three_pages mirror_web 3) = [page ''http://a.test/'' ''same'']"
proof -
  have run: "shouldIndex_all identity_hash example_docs Map.empty =
      ([True, True, False], [''x'' \<mapsto> 1, ''y'' \<mapsto> 2])"
    by (simp add: example_docs_def shouldIndex_def page_def identity_hash_def)
  have fresh: "hash_of identity_hash (page ''http://a.test/'' ''x'') \<notin> dom (Map.empty :: string \<rightharpoonup> nat)"
    by simp
  have seen: "hash_of identity_hash (page ''http://c.test/'' ''x'') \<in> dom [''x'' \<mapsto> (1::nat)]"
    by (simp add: hash_of_def page_def identity_hash_def)
  have h: "hash_of identity_hash (page ''http://a.test/'' ''x'') = ''x''"
    by (simp add: hash_of_def page_def identity_hash_def)
  have fp: "fingerprint mirror_web = identity_hash"
    by (simp add: mirror_web_def)
  have met: "document_met three_pages mirror_web (crawl three_pages mirror_web 2) =
      Some (1, page ''http://b.test/'' ''same'')"
    by (rule three_pages_met(3))
  have unmet: "document_met three_pages mirror_web (crawl three_pages mirror_web 0) = None"
    by (rule three_pages_met(1))
  have answer: "\<not> fst (shouldIndex (fingerprint mirror_web) 1 (page ''http://b.test/'' ''same'')
      (registry (crawl three_pages mirror_web 2)))"
    unfolding three_pages_fetched_one fp
    by (simp add: shouldIndex_def page_def identity_hash_def)
  have two: "submitted (crawl three_pages mirror_web 2) = [page ''http://a.test/'' ''same'']"
    unfolding three_pages_fetched_one by simp
  have zero: "submitted (crawl three_pages mirror_web 0) = []"
    by (simp add: crawl_def initial_state_def)
  note main = first_of_each_hash_is_indexed [of identity_hash example_docs
      "[True, True, False]" "[''x'' \<mapsto> 1, ''y'' \<mapsto> 2]"
      "page ''http://a.test/'' ''x''" Map.empty 1
      "page ''http://c.test/'' ''x''" "[''x'' \<mapsto> 1]" 3
      mirror_web three_pages 3
      "crawl three_pages mirror_web 2" 1 "page ''http://b.test/'' ''same''"
      "crawl three_pages mirror_web 0"]
  from main fresh h have first:
    "shouldIndex identity_hash 1 (page ''http://a.test/'' ''x'') Map.empty = (True, [''x'' \<mapsto> 1])"
    by simp
  from main seen have later:
    "shouldIndex identity_hash 3 (page ''http://c.test/'' ''x'') [''x'' \<mapsto> 1]
       = (False, [''x'' \<mapsto> 1])"
    by blast
  from main have sink:
    "distinct (map (hash_of (fingerprint mirror_web)) (submitted (crawl three_pages mirror_web 3)))"
    by blast
  from main run have
    "\<forall>j < length example_docs. [True, True, False] ! j =
       (\<forall>i < j. hash_of identity_hash (snd (example_docs ! i)) \<noteq>
                 hash_of identity_hash (snd (example_docs ! j)))"
    by blast
  then have answers: "[True, True, False] ! 0" "[True, True, False] ! 1" "\<not> [True, True, False] ! 2"
    by simp_all
  from main met have "submitted (step three_pages mirror_web (crawl three_pages mirror_web 2)) =
      (if fst (shouldIndex (fingerprint mirror_web) 1 (page ''http://b.test/'' ''same'')
                 (registry (crawl three_pages mirror_web 2)))
       then submitted (crawl three_pages mirror_web 2) @ [page ''http://b.test/'' ''same'']
       else submitted (crawl three_pages mirror_web 2))"
    by blast
  with answer two have suppressed:
    "submitted (step three_pages mirror_web (crawl three_pages mirror_web 2)) =
       [page ''http://a.test/'' ''same'']"
    by simp
  from main unmet have "submitted (step three_pages mirror_web (crawl three_pages mirror_web 0)) =
      submitted (crawl three_pages mirror_web 0)"
    by blast
  with zero have quiet: "submitted (step three_pages mirror_web (crawl three_pages mirror_web 0)) = []"
    by simp
  from main have "submitted (crawl three_pages mirror_web 3) =
      first_occurrences (fingerprint mirror_web) (encountered three_pages mirror_web 3)"
    by blast
  then have only_first: "submitted (crawl three_pages mirror_web 3) = [page ''http://a.test/'' ''same'']"
    unfolding fp three_pages_encountered same_text_first_occurrence .
  show ?thesis
    by (intro conjI)
       (rule run answers first later sink three_pages_encountered two suppressed quiet only_first)+
qed

subsection \<open>Page budget\<close>

lemma step_fetched: "fetched s \<le> MAX_PAGES cfg \<Longrightarrow> fetched (step cfg w s) \<le> MAX_PAGES cfg"
  by (auto simp: step_def Let_def
      split: phase.splits prod.splits option.splits bool.splits if_splits)

lemma crawl_fetched: "fetched (crawl cfg w k) \<le> MAX_PAGES cfg"
proof (induction k)
  case 0
  show ?case by (simp add: crawl_def initial_state_def)
next
  case (Suc k)
  then show ?case by (simp add: crawl_Suc step_fetched)
qed

lemma take_next_shorter:
  "take_next F = (Some x, F') \<Longrightarrow> length (pending F') < length (pending F)"
proof -
  assume "take_next F = (Some x, F')"
  from take_next_Some[OF this] have "x \<in> set (pending F)" "pending F' = remove1 x (pending F)"
    by simp_all
  with length_pos_if_in_set[of x "pending F"] show ?thesis
    by (simp add: length_remove1)
qed

lemma running_step:
  assumes "phase_of s = Running"
  shows "phase_of (step cfg w s) = Draining \<or>
         (phase_of (step cfg w s) = Running \<and>
          (MAX_PAGES cfg - fetched (step cfg w s) < MAX_PAGES cfg - fetched s \<or>
           (fetched (step cfg w s) = fetched s \<and>
            length (pending (frontier (step cfg w s))) < length (pending (frontier s)))))"
proof -
  obtain r F where t: "take_next (frontier s) = (r, F)"
    by (cases "take_next (frontier s)")
  show ?thesis
  proof (cases r)
    case None
    with t assms show ?thesis by (simp add: step_def)
  next
    case (Some entry)
    with t have shorter: "length (pending F) < length (pending (frontier s))"
      by (simp add: take_next_shorter)
    show ?thesis
    proof (cases "MAX_PAGES cfg \<le> fetched s")
      case True
      with t Some assms show ?thesis by (simp add: step_def)
    next
      case False
      show ?thesis
      proof (cases "isAllowed w (url entry)")
        case False
        with \<open>\<not> MAX_PAGES cfg \<le> fetched s\<close> t Some assms shorter show ?thesis
          by (simp add: step_def)
      next
        case True
        with False t Some assms have "phase_of (step cfg w s) = Running"
          and "fetched (step cfg w s) = fetched s + 1"
          by (auto simp: step_def Let_def split: option.splits prod.splits bool.splits)
        with False show ?thesis by simp
      qed
    qed
  qed
qed

lemma running_reaches_draining:
  "phase_of s = Running \<Longrightarrow> \<exists>n. phase_of ((step cfg w ^^ n) s) = Draining"
proof -
  have "wf (inv_image (less_than <*lex*> less_than)
       (\<lambda>s. (MAX_PAGES cfg - fetched s, length (pending (frontier s)))))"
    by (intro wf_inv_image wf_lex_prod wf_less_than)
  then have "phase_of s = Running \<longrightarrow> (\<exists>n. phase_of ((step cfg w ^^ n) s) = Draining)"
  proof (induct s rule: wf_induct_rule)
    case (less s)
    show ?case
    proof
      assume run: "phase_of s = Running"
      from running_step[OF run, of cfg w]
      show "\<exists>n. phase_of ((step cfg w ^^ n) s) = Draining"
      proof
        assume "phase_of (step cfg w s) = Draining"
        then have "phase_of ((step cfg w ^^ 1) s) = Draining" by simp
        then show ?thesis by blast
      next
        assume a: "phase_of (step cfg w s) = Running \<and>
          (MAX_PAGES cfg - fetched (step cfg w s) < MAX_PAGES cfg - fetched s \<or>
           (fetched (step cfg w s) = fetched s \<and>
            length (pending (frontier (step cfg w s))) < length (pending (frontier s))))"
        then have "(step cfg w s, s) \<in> inv_image (less_than <*lex*> less_than)
           (\<lambda>s. (MAX_PAGES cfg - fetched s, length (pending (frontier s))))"
          by auto
        from less[OF this] a obtain n
          where "phase_of ((step cfg w ^^ n) (step cfg w s)) = Draining"
          by blast
        then have "phase_of ((step cfg w ^^ Suc n) s) = Draining"
          by (simp add: funpow_swap1)
        then show ?thesis by blast
      qed
    qed
  qed
  then show "phase_of s = Running \<Longrightarrow> \<exists>n. phase_of ((step cfg w ^^ n) s) = Draining"
    by blast
qed

lemma crawl_reaches_done:
  "\<exists>k. phase_of (crawl cfg w k) = Done \<and> flushed (crawl cfg w k)"
proof -
  have "phase_of (crawl cfg w 1) = Running"
    by (simp add: crawl_def step_def initial_state_def)
  from running_reaches_draining[OF this, of cfg w] obtain n
    where "phase_of ((step cfg w ^^ n) (crawl cfg w 1)) = Draining"
    by blast
  then have d: "phase_of (crawl cfg w (n + 1)) = Draining"
    by (simp add: crawl_def funpow_swap1)
  have "crawl cfg w (Suc (n + 1)) = step cfg w (crawl cfg w (n + 1))"
    by (rule crawl_Suc)
  with d have "phase_of (crawl cfg w (Suc (n + 1))) = Done \<and> flushed (crawl cfg w (Suc (n + 1)))"
    by (simp add: step_def)
  then show ?thesis by blast
qed

lemma two_seeds_fetched_one:
  "crawl two_seeds mirror_web 2 =
     \<lparr> phase_of = Running,
       frontier = \<lparr> pending = [seed_entry ''http://c.test/'',
                                link_entry (seed_entry ''http://a.test/'') ''http://b.test/''],
                    VisitedSet = {''http://a.test/''} \<rparr>,
       registry = [''same'' \<mapsto> 0],
       submitted = [page ''http://a.test/'' ''same''],
       flushed = False, fetched = 1, indexed = 1, skipped = 0, clock = 1 \<rparr>"
  by (simp add: crawl_def numeral_2_eq_2 step_def initial_state_def two_seeds_def mirror_web_def
      empty_frontier_def offer_def take_next_def seed_entry_def link_entry_def shouldIndex_def
      page_def identity_hash_def Let_def)

text \<open>
  Claim C6. In every state of every crawl run the number of fetches performed is at most
  \<open>MAX_PAGES\<close>. When an entry has been taken and the budget is reached, the
  orchestrator fetches nothing and moves to \<open>Draining\<close>, the same state that an empty
  frontier leads to; from \<open>Draining\<close> it flushes the Index Sink and reaches \<open>Done\<close>.
  Every crawl run reaches \<open>Done\<close>, with the Index Sink flushed, after finitely many
  transitions.
\<close>

theorem fetches_within_budget:
  "fetched (crawl cfg w k) \<le> MAX_PAGES cfg \<and>
   (phase_of s = Running \<and> take_next (frontier s) = (Some e, F) \<and> MAX_PAGES cfg \<le> fetched s \<longrightarrow>
      step cfg w s = s \<lparr> frontier := F, phase_of := Draining \<rparr>) \<and>
   (phase_of s' = Running \<and> take_next (frontier s') = (None, F') \<longrightarrow>
      step cfg w s' = s' \<lparr> phase_of := Draining \<rparr>) \<and>
   (phase_of t = Draining \<longrightarrow> step cfg w t = t \<lparr> phase_of := Done, flushed := True \<rparr>) \<and>
   (\<exists>n. phase_of (crawl cfg w n) = Done \<and> flushed (crawl cfg w n))"
proof -
  have budget: "step cfg w s = s \<lparr> frontier := F, phase_of := Draining \<rparr>"
    if "phase_of s = Running" "take_next (frontier s) = (Some e, F)" "MAX_PAGES cfg \<le> fetched s"
    using that by (simp add: step_def)
  have drained: "step cfg w s' = s' \<lparr> phase_of := Draining \<rparr>"
    if "phase_of s' = Running" "take_next (frontier s') = (None, F')"
    using that by (simp add: step_def)
  have flush: "step cfg w t = t \<lparr> phase_of := Done, flushed := True \<rparr>"
    if "phase_of t = Draining"
    using that by (simp add: step_def)
  from crawl_fetched[of cfg w k] budget drained flush crawl_reaches_done[of cfg w]
  show ?thesis by blast
qed
text \<open>With \<open>MAX_PAGES = 1\<close> and two seeds, the second transition fetches the first
  seed; the third takes the second seed, finds the budget reached and moves to
  \<open>Draining\<close> without fetching; the fourth flushes and ends the run with one fetch.\<close>

theorem fetches_within_budget_witness:
  "fetched (crawl two_seeds mirror_web 4) \<le> 1 \<and>
   fetched (crawl two_seeds mirror_web 2) = 1 \<and>
   phase_of (crawl two_seeds mirror_web 3) = Draining \<and>
   fetched (crawl two_seeds mirror_web 3) = 1 \<and>
   phase_of (crawl two_seeds mirror_web 4) = Done \<and>
   flushed (crawl two_seeds mirror_web 4) \<and>
   phase_of (step two_seeds mirror_web (initial_state \<lparr> phase_of := Running \<rparr>)) = Draining"
proof -
  let ?s2 = "crawl two_seeds mirror_web 2"
  let ?e = "seed_entry ''http://c.test/''"
  let ?F = "\<lparr> pending = [link_entry (seed_entry ''http://a.test/'') ''http://b.test/''],
              VisitedSet = {''http://c.test/'', ''http://a.test/''} \<rparr>"
  let ?s3 = "?s2 \<lparr> frontier := ?F, phase_of := Draining \<rparr>"
  let ?r = "(initial_state :: string crawl_state) \<lparr> phase_of := Running \<rparr>"
  have budget: "MAX_PAGES two_seeds = 1"
    by (simp add: two_seeds_def)
  have s2: "phase_of ?s2 = Running \<and> take_next (frontier ?s2) = (Some ?e, ?F) \<and>
      MAX_PAGES two_seeds \<le> fetched ?s2"
    by (simp add: two_seeds_fetched_one budget take_next_def seed_entry_def link_entry_def)
  have f2: "fetched ?s2 = 1"
    by (simp add: two_seeds_fetched_one)
  have r: "phase_of ?r = Running \<and> take_next (frontier ?r) = (None, frontier ?r)"
    by (simp add: initial_state_def empty_frontier_def take_next_def)
  have s3: "phase_of ?s3 = Draining"
    by simp
  have c3: "crawl two_seeds mirror_web 3 = step two_seeds mirror_web ?s2"
    and c4: "crawl two_seeds mirror_web 4 = step two_seeds mirror_web (crawl two_seeds mirror_web 3)"
    by (simp_all add: crawl_def eval_nat_numeral)
  note main = fetches_within_budget [of two_seeds mirror_web 4 ?s2 ?e ?F ?r "frontier ?r" ?s3]
  from main have le: "fetched (crawl two_seeds mirror_web 4) \<le> 1"
    unfolding budget by blast
  from main s2 have step3: "step two_seeds mirror_web ?s2 = ?s3"
    by blast
  from main s3 have step4: "step two_seeds mirror_web ?s3 = ?s3 \<lparr> phase_of := Done, flushed := True \<rparr>"
    by blast
  from main r have drained: "step two_seeds mirror_web ?r = ?r \<lparr> phase_of := Draining \<rparr>"
    by blast
  have p3: "phase_of (crawl two_seeds mirror_web 3) = Draining"
    and f3: "fetched (crawl two_seeds mirror_web 3) = 1"
    unfolding c3 step3 using f2 by simp_all
  have p4: "phase_of (crawl two_seeds mirror_web 4) = Done"
    and fl: "flushed (crawl two_seeds mirror_web 4)"
    unfolding c4 c3 step3 step4 by simp_all
  have d: "phase_of (step two_seeds mirror_web ?r) = Draining"
    unfolding drained by simp
  show ?thesis
    by (intro conjI) (rule le f2 p3 f3 p4 fl d)+
qed

end
